theory Spec2Isabelle
  imports Main "HOL-Library.Word" "HOL-Library.Signed_Division"
begin

section \<open>LatestBrowsingHistory: recent browsing history of Chrome and Edge\<close>

text \<open>
  A shallow embedding of \<^verbatim>\<open>LatestBrowsingHistory.cpp\<close>. Every function of the source
  is a definition with the same name. What the source asks of the Windows API, the C++
  runtime and SQLite is a field of the record \<open>world\<close> (the file system, the console, the
  clock, the answers of the shell and of the temporary-name service) or a definition
  named after the library call, written from the call's documentation.
\<close>

subsection \<open>Scalars and strings\<close>

text \<open>
  \<^verbatim>\<open>int64_t\<close> and the 64-bit \<^verbatim>\<open>time_t\<close> of the Microsoft runtime are 64-bit words read
  with \<open>sint\<close>; \<^verbatim>\<open>wchar_t\<close> is a 16-bit code unit. A \<^verbatim>\<open>std::string\<close> is a \<open>string\<close>
  (bytes), a \<^verbatim>\<open>std::wstring\<close> a list of code units.
\<close>

type_synonym int64_t = "64 word"
type_synonym time_t = "64 word"
type_synonym wchar_t = "16 word"
type_synonym wstring = "wchar_t list"

text \<open>The wide literal \<^verbatim>\<open>L"..."\<close> of an ASCII text.\<close>

definition L :: "string \<Rightarrow> wstring" where
  "L s = map of_char s"

text \<open>
  \<^verbatim>\<open>c_str()\<close> read by \<^verbatim>\<open>%s\<close>, and the construction of a string from a character
  buffer: the code units before the first NUL.
\<close>

definition c_str :: "wstring \<Rightarrow> wstring" where
  "c_str s = takeWhile (\<lambda>c. c \<noteq> 0) s"

subsection \<open>Timestamp codec\<close>

text \<open>The division of C++ on \<^verbatim>\<open>int64_t\<close>: the quotient is truncated toward zero.\<close>

definition int64_div :: "int64_t \<Rightarrow> int64_t \<Rightarrow> int64_t" where
  "int64_div a b = word_of_int (sint a sdiv sint b)"

text \<open>
  \<^verbatim>\<open>return static_cast<time_t>(webkitTime / 1000000 - 11644473600LL);\<close>
  The subtraction is the one of 64-bit words, which wraps.
\<close>

definition ConvertWebKitToUnixTime :: "int64_t \<Rightarrow> time_t" where
  "ConvertWebKitToUnixTime webkitTime = int64_div webkitTime 1000000 - 11644473600"

text \<open>
  A \<^verbatim>\<open>double\<close> that holds a count of seconds. The doubles met here are the conversions
  of integers of magnitude below \<open>2 ^ 64\<close>, and each of them is an integer itself: the
  model represents a double by the integer it equals. \<open>double_of_int n\<close> is the double
  nearest to \<open>n\<close>, the conversion of IEEE 754 in its default rounding: exact up to
  \<open>2 ^ 53 = 9007199254740992\<close> in magnitude; beyond, the magnitude keeps its 53 leading
  bits, rounded to nearest, a tie to the even one. \<open>dropped_bits a\<close> is the number of
  low bits that the magnitude \<open>a\<close> loses.
\<close>

function dropped_bits :: "int \<Rightarrow> nat" where
  "dropped_bits a = (if a < 9007199254740992 then 0 else Suc (dropped_bits (a div 2)))"
  by pat_completeness auto
termination
  by (relation "measure nat") auto

declare dropped_bits.simps [simp del]

definition double_of_int :: "int \<Rightarrow> int" where
  "double_of_int n =
     (let a = \<bar>n\<bar>; e = dropped_bits a; q = a div 2 ^ e; r = a mod 2 ^ e
      in if e = 0 then n
         else sgn n * 2 ^ e * (if 2 * r < 2 ^ e \<or> (2 * r = 2 ^ e \<and> even q) then q else q + 1))"

text \<open>
  \<^verbatim>\<open>difftime(time1, time0)\<close> of ISO C: the difference \<open>time1 - time0\<close> in seconds, as a
  \<^verbatim>\<open>double\<close>.
\<close>

definition difftime :: "time_t \<Rightarrow> time_t \<Rightarrow> int" where
  "difftime time1 time0 = double_of_int (sint time1 - sint time0)"

text \<open>
  The condition of the \<^verbatim>\<open>if\<close> in the row loop:
  \<^verbatim>\<open>difftime(currentTime, visitTimeUnix) <= timeRangeInSeconds\<close>, a comparison of doubles,
  the \<^verbatim>\<open>time_t\<close> on the right converted to \<^verbatim>\<open>double\<close>.
\<close>

definition in_time_range :: "time_t \<Rightarrow> time_t \<Rightarrow> time_t \<Rightarrow> bool" where
  "in_time_range currentTime timeRangeInSeconds visitTimeUnix =
     (difftime currentTime visitTimeUnix \<le> double_of_int (sint timeRangeInSeconds))"

subsection \<open>Calendar time of the C runtime\<close>

text \<open>The fields of \<^verbatim>\<open>struct tm\<close> that the format string reads.\<close>

record tm =
  tm_sec :: int
  tm_min :: int
  tm_hour :: int
  tm_mday :: int
  tm_mon :: int
  tm_year :: int

definition is_leap :: "nat \<Rightarrow> bool" where
  "is_leap y = (y mod 4 = 0 \<and> (y mod 100 \<noteq> 0 \<or> y mod 400 = 0))"

definition days_in_year :: "nat \<Rightarrow> nat" where
  "days_in_year y = (if is_leap y then 366 else 365)"

text \<open>The year that holds day \<open>d\<close>, counted from the first day of year \<open>y\<close>.\<close>

function split_year :: "nat \<Rightarrow> nat \<Rightarrow> nat \<times> nat" where
  "split_year y d =
     (if d < days_in_year y then (y, d) else split_year (Suc y) (d - days_in_year y))"
  by pat_completeness auto
termination
  by (relation "measure (\<lambda>(y, d). d)") (auto simp: days_in_year_def)

declare split_year.simps [simp del]

definition month_lengths :: "nat \<Rightarrow> nat list" where
  "month_lengths y =
     [31, if is_leap y then 29 else 28, 31, 30, 31, 30, 31, 31, 30, 31, 30, 31]"

fun split_month :: "nat list \<Rightarrow> nat \<Rightarrow> nat \<Rightarrow> nat \<times> nat" where
  "split_month [] m d = (m, d)"
| "split_month (l # ls) m d = (if d < l then (m, d) else split_month ls (Suc m) (d - l))"

text \<open>The UTC calendar fields of a non-negative count of seconds since 1970-01-01.\<close>

definition utc_fields :: "nat \<Rightarrow> tm" where
  "utc_fields s =
     (let (y, yd) = split_year 1970 (s div 86400);
          (m, md) = split_month (month_lengths y) 0 yd;
          r = s mod 86400
      in \<lparr>tm_sec = int (r mod 60), tm_min = int (r div 60 mod 60), tm_hour = int (r div 3600),
          tm_mday = int md + 1, tm_mon = int m, tm_year = int y - 1900\<rparr>)"

text \<open>
  \<^verbatim>\<open>gmtime_s(&timeInfo, &unixTime)\<close> of the Microsoft runtime with a 64-bit \<^verbatim>\<open>time_t\<close>:
  it returns \<^verbatim>\<open>EINVAL\<close> (here \<open>None\<close>) for a negative time and for a time after
  23:59:59, December 31, 3000 UTC, and fills the structure otherwise.
\<close>

definition gmtime_s :: "time_t \<Rightarrow> tm option" where
  "gmtime_s unixTime =
     (if sint unixTime < 0 \<or> 32535215999 < sint unixTime then None
      else Some (utc_fields (nat (sint unixTime))))"

text \<open>Decimal printing, as \<^verbatim>\<open>%Y\<close> (no padding) and \<^verbatim>\<open>%m %d %H %M %S\<close> (two digits) do.\<close>

definition digit_char :: "nat \<Rightarrow> char" where
  "digit_char n = ''0123456789'' ! (n mod 10)"

function digits :: "nat \<Rightarrow> string" where
  "digits n = (if n < 10 then [digit_char n] else digits (n div 10) @ [digit_char n])"
  by pat_completeness auto
termination
  by (relation "measure id") auto

declare digits.simps [simp del]

definition decimal :: "int \<Rightarrow> string" where
  "decimal i = (if i < 0 then CHR ''-'' # digits (nat (- i)) else digits (nat i))"

definition two_digits :: "int \<Rightarrow> string" where
  "two_digits i = (if 0 \<le> i \<and> i < 10 then CHR ''0'' # decimal i else decimal i)"

text \<open>\<^verbatim>\<open>wcsftime(buffer, sizeof(buffer), L"%Y-%m-%d %H:%M:%S", &timeInfo)\<close>\<close>

definition wcsftime :: "tm \<Rightarrow> wstring" where
  "wcsftime timeInfo =
     L (decimal (tm_year timeInfo + 1900)) @ L ''-'' @ L (two_digits (tm_mon timeInfo + 1))
     @ L ''-'' @ L (two_digits (tm_mday timeInfo)) @ L '' '' @ L (two_digits (tm_hour timeInfo))
     @ L '':'' @ L (two_digits (tm_min timeInfo)) @ L '':'' @ L (two_digits (tm_sec timeInfo))"

definition FormatUnixTimeToUTC :: "time_t \<Rightarrow> wstring" where
  "FormatUnixTimeToUTC unixTime =
     (case gmtime_s unixTime of
        None \<Rightarrow> L ''Invalid time''
      | Some timeInfo \<Rightarrow> c_str (wcsftime timeInfo))"

text \<open>
  The shape \<^verbatim>\<open>YYYY-MM-DD HH:MM:SS\<close>: nineteen code units, decimal digits except for the
  two dashes, the space and the two colons.
\<close>

definition is_digit :: "wchar_t \<Rightarrow> bool" where
  "is_digit c = (c \<in> set (L ''0123456789''))"

definition timestamp_shaped :: "wstring \<Rightarrow> bool" where
  "timestamp_shaped s =
     (length s = 19
      \<and> list_all is_digit (take 4 s) \<and> take 1 (drop 4 s) = L ''-''
      \<and> list_all is_digit (take 2 (drop 5 s)) \<and> take 1 (drop 7 s) = L ''-''
      \<and> list_all is_digit (take 2 (drop 8 s)) \<and> take 1 (drop 10 s) = L '' ''
      \<and> list_all is_digit (take 2 (drop 11 s)) \<and> take 1 (drop 13 s) = L '':''
      \<and> list_all is_digit (take 2 (drop 14 s)) \<and> take 1 (drop 16 s) = L '':''
      \<and> list_all is_digit (take 2 (drop 17 s)))"

subsection \<open>Reading a timestamp back\<close>

text \<open>
  The reading of a text \<^verbatim>\<open>YYYY-MM-DD HH:MM:SS\<close> as a date and time of the Gregorian
  calendar in UTC, from 1970 on: the count of seconds since 1970-01-01 00:00:00 that it
  names, \<open>None\<close> when it names none. It is written without the functions of the
  formatter: the days before a year in closed form, the days before a month from the table
  of the common year.
\<close>

definition digit_value :: "wchar_t \<Rightarrow> nat" where
  "digit_value c = unat c - 48"

definition read_number :: "wstring \<Rightarrow> nat" where
  "read_number s = foldl (\<lambda>n c. 10 * n + digit_value c) 0 s"

definition gregorian_leap :: "int \<Rightarrow> bool" where
  "gregorian_leap y = (4 dvd y \<and> (\<not> 100 dvd y \<or> 400 dvd y))"

definition days_before_year :: "int \<Rightarrow> int" where
  "days_before_year y =
     365 * (y - 1970) + (y - 1969) div 4 - (y - 1901) div 100 + (y - 1601) div 400"

definition days_in_month :: "int \<Rightarrow> nat \<Rightarrow> int" where
  "days_in_month y m =
     (if m = 2 then (if gregorian_leap y then 29 else 28)
      else if m = 4 \<or> m = 6 \<or> m = 9 \<or> m = 11 then 30 else 31)"

definition days_before_month :: "int \<Rightarrow> nat \<Rightarrow> int" where
  "days_before_month y m =
     [0, 31, 59, 90, 120, 151, 181, 212, 243, 273, 304, 334] ! (m - 1)
     + (if 2 < m \<and> gregorian_leap y then 1 else 0)"

definition read_timestamp :: "wstring \<Rightarrow> int option" where
  "read_timestamp s =
     (let year = int (read_number (take 4 s));
          month = read_number (take 2 (drop 5 s));
          day = int (read_number (take 2 (drop 8 s)));
          hour = int (read_number (take 2 (drop 11 s)));
          minute = int (read_number (take 2 (drop 14 s)));
          second = int (read_number (take 2 (drop 17 s)))
      in if timestamp_shaped s \<and> 1970 \<le> year \<and> 1 \<le> month \<and> month \<le> 12
            \<and> 1 \<le> day \<and> day \<le> days_in_month year month
            \<and> hour \<le> 23 \<and> minute \<le> 59 \<and> second \<le> 59
         then Some ((((days_before_year year + days_before_month year month + (day - 1)) * 24
                        + hour) * 60 + minute) * 60 + second)
         else None)"

subsection \<open>Narrow and wide strings\<close>

text \<open>
  The one run-time fault of the program that is no error return: a \<^verbatim>\<open>std::string\<close>
  built from a null \<^verbatim>\<open>const char*\<close>, which C++ leaves undefined (an access violation in
  practice). Nothing is known of the state after it.
\<close>

datatype fault = NullPointerString

text \<open>
  \<^verbatim>\<open>std::string(const char*)\<close>, the implicit conversion at the call of
  \<^verbatim>\<open>ConvertUtf8ToWide\<close>: the bytes before the first NUL; \<open>None\<close> is the null pointer.
\<close>

definition std_string :: "string option \<Rightarrow> fault + string" where
  "std_string p =
     (case p of
        None \<Rightarrow> Inl NullPointerString
      | Some bytes \<Rightarrow> Inr (takeWhile (\<lambda>c. c \<noteq> CHR 0x00) bytes))"

text \<open>
  \<open>mb2wc\<close> is \<^verbatim>\<open>MultiByteToWideChar(CP_UTF8, 0, s, -1, ...)\<close>: the code units it writes,
  the terminating NUL included; their number is its return value, 0 on failure.
\<close>

definition ConvertUtf8ToWide :: "(string \<Rightarrow> wstring) \<Rightarrow> string \<Rightarrow> wstring" where
  "ConvertUtf8ToWide mb2wc utf8Str =
     (if utf8Str = [] then []
      else let wideStr = mb2wc utf8Str
           in if length wideStr = 0 then [] else wideStr)"

subsection \<open>The world outside the program\<close>

text \<open>
  What SQLite makes of a file: it cannot be opened; it opens but the query cannot be
  prepared (with the message of \<^verbatim>\<open>sqlite3_errmsg\<close>); or it holds the two relations
  of a history store, \<^verbatim>\<open>urls(id, url)\<close> with a nullable \<^verbatim>\<open>url\<close> and
  \<^verbatim>\<open>visits(url, visit_time)\<close>.
\<close>

datatype content =
    Unopenable
  | Unqueryable string
  | History "(int \<times> string option) list" "(int \<times> int64_t) list"

text \<open>A file: its content, and whether another process holds it locked against reading.\<close>

record stored_file =
  data :: content
  locked :: bool

text \<open>
  The file system, the lines written to the console (one entry for each \<^verbatim>\<open>wprintf\<close>),
  the clock of \<^verbatim>\<open>std::time\<close>, and the answers of \<^verbatim>\<open>SHGetFolderPathW\<close>,
  \<^verbatim>\<open>GetTempPathW\<close> (\<open>None\<close> when they fail), of \<^verbatim>\<open>GetTempFileNameW\<close> (the name it
  picks in a directory, given the files that exist; \<open>None\<close> when it returns 0), of
  \<^verbatim>\<open>MultiByteToWideChar\<close> and of \<^verbatim>\<open>filesystem_error::what\<close>.
\<close>

record world =
  files :: "wstring \<rightharpoonup> stored_file"
  stdout :: "wstring list"
  time_now :: time_t
  SHGetFolderPathW :: "wstring option"
  GetTempPathW :: "wstring option"
  GetTempFileNameW :: "wstring \<Rightarrow> (wstring \<rightharpoonup> stored_file) \<Rightarrow> wstring option"
  MultiByteToWideChar :: "string \<Rightarrow> wstring"
  what :: string

definition wprintf :: "wstring \<Rightarrow> world \<Rightarrow> world" where
  "wprintf text w = w\<lparr>stdout := stdout w @ [text]\<rparr>"

definition GetUserProfilePath :: "world \<Rightarrow> wstring" where
  "GetUserProfilePath w =
     (case SHGetFolderPathW w of
        Some path \<Rightarrow> c_str path
      | None \<Rightarrow> [])"

text \<open>
  The empty file that \<^verbatim>\<open>GetTempFileNameW\<close> creates when its third argument is 0.
  SQLite opens an empty file as a database with no table.
\<close>

definition empty_file :: stored_file where
  "empty_file = \<lparr>data = Unqueryable ''no such table: urls'', locked = False\<rparr>"

text \<open>
  \<^verbatim>\<open>std::filesystem::copy_file(from, to, overwrite_existing)\<close>: \<open>None\<close> is the
  \<^verbatim>\<open>filesystem_error\<close> it throws, when the source is missing, is locked by another
  process, or is the destination itself. The copy belongs to this process alone.
\<close>

definition copy_file :: "wstring \<Rightarrow> wstring \<Rightarrow> (wstring \<rightharpoonup> stored_file) \<Rightarrow> (wstring \<rightharpoonup> stored_file) option" where
  "copy_file from to fs =
     (case fs from of
        None \<Rightarrow> None
      | Some f \<Rightarrow>
          if locked f \<or> from = to then None
          else Some (fs(to \<mapsto> f\<lparr>locked := False\<rparr>)))"

text \<open>
  The result is the returned \<^verbatim>\<open>bool\<close>, the reference parameter \<^verbatim>\<open>tempDbPath\<close> (which
  the caller passes in empty) and the world.
\<close>

definition CopyDatabaseToTemp :: "wstring \<Rightarrow> world \<Rightarrow> bool \<times> wstring \<times> world" where
  "CopyDatabaseToTemp dbPath w =
     (case GetTempPathW w of
        None \<Rightarrow> (False, [], w)
      | Some tempPath \<Rightarrow>
          (case GetTempFileNameW w tempPath (files w) of
             None \<Rightarrow> (False, [], w)
           | Some tempFileName \<Rightarrow>
               let tempDbPath = c_str tempFileName;
                   w1 = w\<lparr>files := (files w)(tempDbPath \<mapsto> empty_file)\<rparr>
               in (case copy_file dbPath tempDbPath (files w1) of
                     Some fs \<Rightarrow> (True, tempDbPath, w1\<lparr>files := fs\<rparr>)
                   | None \<Rightarrow>
                       (False, tempDbPath,
                        wprintf (L ''Failed to copy database: ''
                                 @ c_str (ConvertUtf8ToWide (MultiByteToWideChar w1) (what w1))
                                 @ L ''\<newline>'') w1))))"

subsection \<open>SQLite\<close>

text \<open>
  \<^verbatim>\<open>sqlite3_open16(filename, &db)\<close>: the database handle, or \<open>None\<close> when the result is
  not \<^verbatim>\<open>SQLITE_OK\<close>. The caller opens the copy it has just made, so the file exists.
\<close>

definition sqlite3_open16 :: "(wstring \<rightharpoonup> stored_file) \<Rightarrow> wstring \<Rightarrow> content option" where
  "sqlite3_open16 fs filename =
     (case fs filename of
        None \<Rightarrow> None
      | Some f \<Rightarrow> (case data f of Unopenable \<Rightarrow> None | db \<Rightarrow> Some db))"

text \<open>
  \<^verbatim>\<open>SELECT u.url, v.visit_time FROM urls u JOIN visits v ON u.id = v.url
  ORDER BY v.visit_time DESC;\<close>
\<close>

definition run_query ::
  "(int \<times> string option) list \<Rightarrow> (int \<times> int64_t) list \<Rightarrow> (string option \<times> int64_t) list" where
  "run_query urls visits =
     sort_key (\<lambda>(url, visit_time). - sint visit_time)
       [(url, visit_time). (v_url, visit_time) \<leftarrow> visits, (u_id, url) \<leftarrow> urls, u_id = v_url]"

text \<open>
  \<^verbatim>\<open>sqlite3_prepare_v2\<close> with the query above: the message of \<^verbatim>\<open>sqlite3_errmsg\<close> when
  the result is not \<^verbatim>\<open>SQLITE_OK\<close>, else the rows that \<^verbatim>\<open>sqlite3_step\<close> will return,
  each with \<^verbatim>\<open>sqlite3_column_text(stmt, 0)\<close> (\<open>None\<close> for SQL NULL) and
  \<^verbatim>\<open>sqlite3_column_int64(stmt, 1)\<close>.
\<close>

definition sqlite3_prepare_v2 :: "content \<Rightarrow> string + (string option \<times> int64_t) list" where
  "sqlite3_prepare_v2 db =
     (case db of
        Unopenable \<Rightarrow> Inl ''unable to open database file''
      | Unqueryable errmsg \<Rightarrow> Inl errmsg
      | History urls visits \<Rightarrow> Inr (run_query urls visits))"

subsection \<open>The extraction\<close>

text \<open>The line of \<^verbatim>\<open>wprintf(L"URL: %s, Visit Time (UTC): %s\n", ...)\<close>.\<close>

definition url_line :: "wstring \<Rightarrow> wstring \<Rightarrow> wstring" where
  "url_line foundUrl visitTimeStr =
     L ''URL: '' @ c_str foundUrl @ L '', Visit Time (UTC): '' @ c_str visitTimeStr
     @ L ''\<newline>''"

text \<open>The \<^verbatim>\<open>while (sqlite3_step(stmt) == SQLITE_ROW)\<close> loop over the rows of the result.\<close>

fun print_rows ::
  "time_t \<Rightarrow> time_t \<Rightarrow> (string option \<times> int64_t) list \<Rightarrow> world \<Rightarrow> fault + world" where
  "print_rows currentTime timeRangeInSeconds [] w = Inr w"
| "print_rows currentTime timeRangeInSeconds ((foundUrlUtf8, visitTimeWebKit) # rows) w =
     (let visitTimeUnix = ConvertWebKitToUnixTime visitTimeWebKit
      in if in_time_range currentTime timeRangeInSeconds visitTimeUnix then
           (case std_string foundUrlUtf8 of
              Inl f \<Rightarrow> Inl f
            | Inr utf8Str \<Rightarrow>
                let foundUrl = ConvertUtf8ToWide (MultiByteToWideChar w) utf8Str;
                    visitTimeStr = FormatUnixTimeToUTC visitTimeUnix
                in print_rows currentTime timeRangeInSeconds rows
                     (wprintf (url_line foundUrl visitTimeStr) w))
         else print_rows currentTime timeRangeInSeconds rows w)"

text \<open>
  Each early \<^verbatim>\<open>return\<close> is a branch that ends with its diagnostic. \<^verbatim>\<open>sqlite3_finalize\<close>
  and \<^verbatim>\<open>sqlite3_close\<close> release the handle and change nothing that the world records;
  \<^verbatim>\<open>std::filesystem::remove(tempDbPath)\<close> deletes the file at the snapshot path.
\<close>

definition PrintUrlsFromDatabase :: "wstring \<Rightarrow> time_t \<Rightarrow> time_t \<Rightarrow> world \<Rightarrow> fault + world" where
  "PrintUrlsFromDatabase dbPath currentTime timeRangeInSeconds w =
     (case CopyDatabaseToTemp dbPath w of
        (False, tempDbPath, w1) \<Rightarrow>
          Inr (wprintf (L ''Failed to copy database to temporary file: '' @ c_str dbPath
                        @ L ''\<newline>'') w1)
      | (True, tempDbPath, w1) \<Rightarrow>
          (case sqlite3_open16 (files w1) tempDbPath of
             None \<Rightarrow>
               Inr (wprintf (L ''Failed to open database: '' @ c_str tempDbPath
                             @ L ''\<newline>'') w1)
           | Some db \<Rightarrow>
               (case sqlite3_prepare_v2 db of
                  Inl errmsg \<Rightarrow>
                    Inr (wprintf (L ''Failed to prepare statement: '' @ L errmsg
                                  @ L ''\<newline>'') w1)
                | Inr rows \<Rightarrow>
                    (case print_rows currentTime timeRangeInSeconds rows w1 of
                       Inl f \<Rightarrow> Inl f
                     | Inr w2 \<Rightarrow> Inr (w2\<lparr>files := (files w2)(tempDbPath := None)\<rparr>)))))"

text \<open>A path below the profile directory, each component after a backslash.\<close>

definition below :: "wstring \<Rightarrow> string list \<Rightarrow> wstring" where
  "below dir components = dir @ concat (map (\<lambda>c. 0x5C # L c) components)"

definition chromeHistoryPath :: "wstring \<Rightarrow> wstring" where
  "chromeHistoryPath userProfilePath =
     below userProfilePath
       [''AppData'', ''Local'', ''Google'', ''Chrome'', ''User Data'', ''Default'', ''History'']"

definition edgeHistoryPath :: "wstring \<Rightarrow> wstring" where
  "edgeHistoryPath userProfilePath =
     below userProfilePath
       [''AppData'', ''Local'', ''Microsoft'', ''Edge'', ''User Data'', ''Default'', ''History'']"

text \<open>The result is the exit status and the world at exit.\<close>

definition wmain :: "world \<Rightarrow> fault + int \<times> world" where
  "wmain w =
     (let currentTime = time_now w;
          timeRangeInSeconds = 10 * 60;
          userProfilePath = GetUserProfilePath w
      in if userProfilePath = [] then
           Inr (1, wprintf (L ''Failed to get user profile path.\<newline>'') w)
         else
           (case PrintUrlsFromDatabase (chromeHistoryPath userProfilePath) currentTime
                   timeRangeInSeconds (wprintf (L ''Checking Chrome browsing history:\<newline>'') w) of
              Inl f \<Rightarrow> Inl f
            | Inr w1 \<Rightarrow>
                (case PrintUrlsFromDatabase (edgeHistoryPath userProfilePath) currentTime
                        timeRangeInSeconds
                        (wprintf (L ''\<newline>Checking Edge browsing history:\<newline>'') w1) of
                   Inl f \<Rightarrow> Inl f
                 | Inr w2 \<Rightarrow> Inr (0, w2))))"

subsection \<open>Notions used to state the properties\<close>

text \<open>The snapshot path that \<open>CopyDatabaseToTemp\<close> allocates in a world, if it gets one.\<close>

definition tempDbPath_of :: "world \<Rightarrow> wstring option" where
  "tempDbPath_of w =
     (case GetTempPathW w of
        None \<Rightarrow> None
      | Some tempPath \<Rightarrow> map_option c_str (GetTempFileNameW w tempPath (files w)))"

text \<open>
  The rows that the loop of \<open>PrintUrlsFromDatabase\<close> iterates over; \<open>None\<close> when the
  extraction fails before the loop: at the copy, at the open or at the prepare.
\<close>

definition store_rows :: "wstring \<Rightarrow> world \<Rightarrow> (string option \<times> int64_t) list option" where
  "store_rows dbPath w =
     (case CopyDatabaseToTemp dbPath w of
        (False, tempDbPath, w1) \<Rightarrow> None
      | (True, tempDbPath, w1) \<Rightarrow>
          (case sqlite3_open16 (files w1) tempDbPath of
             None \<Rightarrow> None
           | Some db \<Rightarrow> (case sqlite3_prepare_v2 db of Inl errmsg \<Rightarrow> None | Inr rows \<Rightarrow> Some rows)))"

text \<open>The rows inside the time range, in the order of the result.\<close>

definition hits :: "time_t \<Rightarrow> time_t \<Rightarrow> (string option \<times> int64_t) list \<Rightarrow> (string option \<times> int64_t) list" where
  "hits currentTime timeRangeInSeconds rows =
     filter (\<lambda>(url, visit_time).
       in_time_range currentTime timeRangeInSeconds (ConvertWebKitToUnixTime visit_time)) rows"

text \<open>Some row inside the time range has a NULL url.\<close>

definition null_hit :: "time_t \<Rightarrow> time_t \<Rightarrow> (string option \<times> int64_t) list \<Rightarrow> bool" where
  "null_hit currentTime timeRangeInSeconds rows =
     list_ex (\<lambda>(url, visit_time). url = None) (hits currentTime timeRangeInSeconds rows)"


text \<open>The line printed for a row inside the time range (nothing is printed for a NULL url).\<close>

definition entry_line :: "(string \<Rightarrow> wstring) \<Rightarrow> string option \<times> int64_t \<Rightarrow> wstring" where
  "entry_line mb2wc row =
     (case std_string (fst row) of
        Inl f \<Rightarrow> []
      | Inr utf8Str \<Rightarrow>
          url_line (ConvertUtf8ToWide mb2wc utf8Str)
            (FormatUnixTimeToUTC (ConvertWebKitToUnixTime (snd row))))"

text \<open>
  A line of the form \<^verbatim>\<open>URL: <url>, Visit Time (UTC): <YYYY-MM-DD HH:MM:SS>\<close>, newline at
  the end: the parts are found from the two ends of the line.
\<close>

definition entry_shaped :: "wstring \<Rightarrow> bool" where
  "entry_shaped line =
     (45 \<le> length line
      \<and> take 5 line = L ''URL: ''
      \<and> take 20 (drop (length line - 40) line) = L '', Visit Time (UTC): ''
      \<and> timestamp_shaped (take 19 (drop (length line - 20) line))
      \<and> drop (length line - 1) line = L ''\<newline>'')"

text \<open>A line that begins as an entry does.\<close>

definition is_entry :: "wstring \<Rightarrow> bool" where
  "is_entry line = (take 5 line = L ''URL: '')"

subsection \<open>Worlds to run the program in\<close>

text \<open>An ASCII-only \<^verbatim>\<open>MultiByteToWideChar\<close>: each byte widened, and the terminating NUL.\<close>

definition ascii_to_wide :: "string \<Rightarrow> wstring" where
  "ascii_to_wide s = map of_char s @ [0]"

text \<open>A \<^verbatim>\<open>GetTempFileNameW\<close> with two names to hand out: the first that no file has.\<close>

definition first_unused :: "wstring \<Rightarrow> (wstring \<rightharpoonup> stored_file) \<Rightarrow> wstring option" where
  "first_unused dir fs =
     (if fs (dir @ L ''dbc1.tmp'') = None then Some (dir @ L ''dbc1.tmp'')
      else if fs (dir @ L ''dbc2.tmp'') = None then Some (dir @ L ''dbc2.tmp'')
      else None)"

text \<open>
  A machine at 2024-01-01 00:10:00 UTC with profile directory \<^verbatim>\<open>C:\<close>, temporary
  directory \<^verbatim>\<open>T:\<close> and the given files.
\<close>

definition machine :: "(wstring \<rightharpoonup> stored_file) \<Rightarrow> world" where
  "machine fs =
     \<lparr>files = fs, stdout = [], time_now = 1704067800, SHGetFolderPathW = Some (L ''C:''),
      GetTempPathW = Some (L ''T:''), GetTempFileNameW = first_unused,
      MultiByteToWideChar = ascii_to_wide, what = ''cannot copy file''\<rparr>"

text \<open>
  Stores: visits at 00:00:00 and at 00:09:00 of 2024-01-01; a file that is no database;
  ten visits in the last ten minutes, one of them of a url that is NULL; one visit dated
  far after the year 3000.
\<close>

definition scenario_store :: stored_file where
  "scenario_store =
     \<lparr>data = History [(1, Some ''https://example.com'')]
               [(1, 13348540800000000), (1, 13348541340000000)],
      locked = False\<rparr>"

definition garbage_file :: stored_file where
  "garbage_file = \<lparr>data = Unqueryable ''file is not a database'', locked = False\<rparr>"

definition ten_row_store :: stored_file where
  "ten_row_store =
     \<lparr>data = History
        [(1, Some ''a''), (2, Some ''b''), (3, Some ''c''), (4, Some ''d''), (5, None),
         (6, Some ''f''), (7, Some ''g''), (8, Some ''h''), (9, Some ''i''), (10, Some ''j'')]
        [(1, 13348541340000000), (2, 13348541341000000), (3, 13348541342000000),
         (4, 13348541343000000), (5, 13348541344000000), (6, 13348541345000000),
         (7, 13348541346000000), (8, 13348541347000000), (9, 13348541348000000),
         (10, 13348541349000000)],
      locked = False\<rparr>"

definition far_future_store :: stored_file where
  "far_future_store =
     \<lparr>data = History [(1, Some ''https://example.com'')] [(1, 1000000000000000000)],
      locked = False\<rparr>"

text \<open>The history paths below the profile directory \<^verbatim>\<open>C:\<close>.\<close>

definition chrome_path :: wstring where
  "chrome_path = chromeHistoryPath (L ''C:'')"

definition edge_path :: wstring where
  "edge_path = edgeHistoryPath (L ''C:'')"

definition bare_machine :: world where
  "bare_machine = machine Map.empty"

definition no_profile_machine :: world where
  "no_profile_machine = bare_machine\<lparr>SHGetFolderPathW := None\<rparr>"

definition scenario_machine :: world where
  "scenario_machine = machine [chrome_path \<mapsto> scenario_store]"

definition garbage_machine :: world where
  "garbage_machine = machine [chrome_path \<mapsto> garbage_file]"

definition ten_row_machine :: world where
  "ten_row_machine = machine [chrome_path \<mapsto> ten_row_store]"

definition far_future_machine :: world where
  "far_future_machine = machine [chrome_path \<mapsto> far_future_store]"

definition edge_only_machine :: world where
  "edge_only_machine = machine [edge_path \<mapsto> scenario_store]"

text \<open>
  What a run that returns leaves behind (\<open>None\<close> for a run that faults): the file at a
  path, if any; the console; the exit status.
\<close>

definition file_after :: "wstring \<Rightarrow> fault + world \<Rightarrow> stored_file option option" where
  "file_after path r = (case r of Inl f \<Rightarrow> None | Inr w \<Rightarrow> Some (files w path))"

definition printed :: "fault + world \<Rightarrow> wstring list option" where
  "printed r = (case r of Inl f \<Rightarrow> None | Inr w \<Rightarrow> Some (stdout w))"

definition exit_status :: "fault + int \<times> world \<Rightarrow> int option" where
  "exit_status r = (case r of Inl f \<Rightarrow> None | Inr (status, w) \<Rightarrow> Some status)"

definition printed_at_exit :: "fault + int \<times> world \<Rightarrow> wstring list option" where
  "printed_at_exit r = (case r of Inl f \<Rightarrow> None | Inr (status, w) \<Rightarrow> Some (stdout w))"

section \<open>The timestamp codec and the recency window\<close>











lemma sdiv_million_bounds:
  fixes k :: int
  assumes "- (2 ^ 63) \<le> k" "k < 2 ^ 63"
  shows "- 9223372036854 \<le> k sdiv 1000000" "k sdiv 1000000 \<le> 9223372036854"
proof -
  have "\<bar>k\<bar> \<le> 2 ^ 63" using assms by simp
  then have "\<bar>k\<bar> div 1000000 \<le> 2 ^ 63 div 1000000"
    by (rule zdiv_mono1) simp
  then have le: "\<bar>k\<bar> div 1000000 \<le> 9223372036854" by simp
  have ge: "0 \<le> \<bar>k\<bar> div 1000000" by simp
  show "- 9223372036854 \<le> k sdiv 1000000" "k sdiv 1000000 \<le> 9223372036854"
    using le ge by (auto simp: signed_divide_int_def sgn_if)
qed

lemma sint_ConvertWebKitToUnixTime:
  "sint (ConvertWebKitToUnixTime w) = sint w sdiv 1000000 - 11644473600"
proof -
  have b: "- (2 ^ 63) \<le> sint w" "sint w < 2 ^ 63"
    using sint_ge [of w] sint_lt [of w] by simp_all
  note q = sdiv_million_bounds [OF b]
  have "ConvertWebKitToUnixTime w = word_of_int (sint w sdiv 1000000 - 11644473600)"
    by (simp add: ConvertWebKitToUnixTime_def int64_div_def)
  then have "sint (ConvertWebKitToUnixTime w) = signed_take_bit 63 (sint w sdiv 1000000 - 11644473600)"
    by (simp only: sint_sbintrunc') simp
  also have "\<dots> = sint w sdiv 1000000 - 11644473600"
    using q by (intro signed_take_bit_int_eq_self) simp_all
  finally show ?thesis .
qed

text \<open>
  C5. For every \<^verbatim>\<open>int64_t\<close> input the decoder returns the input divided by 1,000,000,
  the quotient truncated toward zero (the sign times the quotient of the magnitudes),
  minus 11,644,473,600; the 64-bit arithmetic never wraps.
\<close>

theorem decode_truncates_toward_zero:
  "sint (ConvertWebKitToUnixTime encoded) =
     sgn (sint encoded) * (\<bar>sint encoded\<bar> div 1000000) - 11644473600"
  by (simp add: sint_ConvertWebKitToUnixTime signed_divide_int_def)


lemma div_pred:
  fixes k m :: int
  assumes "0 < m"
  shows "(k - 1) div m = (if k mod m = 0 then k div m - 1 else k div m)"
proof (cases "k mod m = 0")
  case True
  have "k - 1 = m * (k div m - 1) + (m - 1)"
    using True mult_div_mod_eq [of m k] by (simp add: algebra_simps)
  then have "(k - 1) div m = k div m - 1"
    by (rule int_div_pos_eq) (use assms in simp_all)
  with True show ?thesis by simp
next
  case False
  have r: "0 \<le> k mod m" "k mod m < m" using assms by simp_all
  have "k - 1 = m * (k div m) + (k mod m - 1)"
    using mult_div_mod_eq [of m k] by simp
  then have "(k - 1) div m = k div m"
    by (rule int_div_pos_eq) (use r False in simp_all)
  with False show ?thesis by simp
qed




lemmas codec_eval = in_time_range_def difftime_def ConvertWebKitToUnixTime_def int64_div_def
  signed_divide_int_def double_of_int_def dropped_bits.simps Let_def







section \<open>The time formatter\<close>

lemma split_year_bounds:
  "split_year y d = (y', d') \<Longrightarrow> y \<le> y' \<and> y' \<le> y + d div 365 \<and> d' < days_in_year y'"
proof (induction y d rule: split_year.induct)
  case (1 y d)
  show ?case
  proof (cases "d < days_in_year y")
    case True
    with "1.prems" show ?thesis by (simp add: split_year.simps [of y d])
  next
    case False
    then have r: "split_year (Suc y) (d - days_in_year y) = (y', d')"
      using "1.prems" by (simp add: split_year.simps [of y d])
    have ih: "Suc y \<le> y' \<and> y' \<le> Suc y + (d - days_in_year y) div 365 \<and> d' < days_in_year y'"
      using "1.IH" [OF False r] .
    have "365 \<le> days_in_year y" by (simp add: days_in_year_def)
    then have "(d - days_in_year y) div 365 \<le> (d - 365) div 365"
      by (intro div_le_mono) simp
    moreover have "365 \<le> d" using False by (simp add: days_in_year_def split: if_splits)
    then have "Suc ((d - 365) div 365) = d div 365"
      by (simp add: le_div_geq)
    ultimately show ?thesis using ih by simp
  qed
qed

lemma split_month_bounds:
  "split_month ls m d = (m', d') \<Longrightarrow> d < sum_list ls \<Longrightarrow> \<forall>l \<in> set ls. l \<le> 31 \<Longrightarrow>
     m' < m + length ls \<and> d' < 31"
proof (induction ls arbitrary: m d)
  case Nil
  then show ?case by simp
next
  case (Cons l ls)
  show ?case
  proof (cases "d < l")
    case True
    with Cons.prems show ?thesis by auto
  next
    case False
    with Cons.prems have "split_month ls (Suc m) (d - l) = (m', d')" "d - l < sum_list ls"
      by simp_all
    from Cons.IH [OF this] Cons.prems(3) show ?thesis by simp
  qed
qed

lemma sum_month_lengths: "sum_list (month_lengths y) = days_in_year y"
  by (simp add: month_lengths_def days_in_year_def)

lemma month_lengths_le: "\<forall>l \<in> set (month_lengths y). l \<le> 31"
  by (simp add: month_lengths_def)

lemma utc_fields_ranges:
  assumes "s \<le> 32535215999"
  shows "70 \<le> tm_year (utc_fields s) \<and> tm_year (utc_fields s) \<le> 1101
    \<and> 0 \<le> tm_mon (utc_fields s) \<and> tm_mon (utc_fields s) \<le> 11
    \<and> 1 \<le> tm_mday (utc_fields s) \<and> tm_mday (utc_fields s) \<le> 31
    \<and> 0 \<le> tm_hour (utc_fields s) \<and> tm_hour (utc_fields s) \<le> 23
    \<and> 0 \<le> tm_min (utc_fields s) \<and> tm_min (utc_fields s) \<le> 59
    \<and> 0 \<le> tm_sec (utc_fields s) \<and> tm_sec (utc_fields s) \<le> 59"
proof -
  obtain y yd where sy: "split_year 1970 (s div 86400) = (y, yd)" by (meson surj_pair)
  obtain m md where sm: "split_month (month_lengths y) 0 yd = (m, md)" by (meson surj_pair)
  have "s div 86400 \<le> 32535215999 div 86400" using assms by (rule div_le_mono)
  then have "s div 86400 div 365 \<le> (32535215999 div 86400) div 365" by (rule div_le_mono)
  then have d: "s div 86400 div 365 \<le> 1031" by simp
  from split_year_bounds [OF sy] d have y: "1970 \<le> y" "y \<le> 3001" "yd < days_in_year y"
    by simp_all
  have "yd < sum_list (month_lengths y)" using y(3) by (simp add: sum_month_lengths)
  from split_month_bounds [OF sm this month_lengths_le]
  have m: "m < 12" "md < 31" by (simp_all add: month_lengths_def)
  have h: "s mod 86400 div 3600 \<le> 23"
  proof -
    have "s mod 86400 < 86400" by simp
    then have "s mod 86400 div 3600 \<le> 86399 div 3600" by (intro div_le_mono) simp
    then show ?thesis by simp
  qed
  have mn: "s mod 86400 div 60 mod 60 \<le> 59" "s mod 86400 mod 60 \<le> 59"
    by (simp_all add: less_Suc_eq_le [symmetric])
  show ?thesis using y m h mn by (simp add: utc_fields_def sy sm Let_def)
qed

lemma digit_char_in: "digit_char n \<in> set ''0123456789''"
  unfolding digit_char_def by (rule nth_mem) simp

lemma set_digits: "set (digits n) \<subseteq> set ''0123456789''"
proof (induction n rule: digits.induct)
  case (1 n)
  show ?case
  proof (cases "n < 10")
    case True
    then have "digits n = [digit_char n]" by (simp add: digits.simps [of n])
    then show ?thesis using digit_char_in [of n] by simp
  next
    case False
    then have "digits n = digits (n div 10) @ [digit_char n]" by (simp add: digits.simps [of n])
    then show ?thesis using "1.IH" [OF False] digit_char_in [of n] by simp
  qed
qed

lemma length_digits_1: "n < 10 \<Longrightarrow> length (digits n) = 1"
  by (simp add: digits.simps [of n])

lemma length_digits_step: "10 \<le> n \<Longrightarrow> length (digits n) = Suc (length (digits (n div 10)))"
  by (simp add: digits.simps [of n])

lemma length_digits_2: "10 \<le> n \<Longrightarrow> n < 100 \<Longrightarrow> length (digits n) = 2"
proof -
  assume a: "10 \<le> n" "n < 100"
  then have "n div 10 < 10" by (simp add: less_mult_imp_div_less)
  then have "length (digits (n div 10)) = 1" by (rule length_digits_1)
  with length_digits_step [OF a(1)] show ?thesis by simp
qed

lemma length_digits_3: "100 \<le> n \<Longrightarrow> n < 1000 \<Longrightarrow> length (digits n) = 3"
proof -
  assume a: "100 \<le> n" "n < 1000"
  then have "10 \<le> n div 10" "n div 10 < 100"
    using div_le_mono [of 100 n 10] by (simp_all add: less_mult_imp_div_less)
  then have "length (digits (n div 10)) = 2" by (rule length_digits_2)
  with length_digits_step [of n] a show ?thesis by simp
qed

lemma length_digits_4: "1000 \<le> n \<Longrightarrow> n < 10000 \<Longrightarrow> length (digits n) = 4"
proof -
  assume a: "1000 \<le> n" "n < 10000"
  then have "100 \<le> n div 10" "n div 10 < 1000"
    using div_le_mono [of 1000 n 10] by (simp_all add: less_mult_imp_div_less)
  then have "length (digits (n div 10)) = 3" by (rule length_digits_3)
  with length_digits_step [of n] a show ?thesis by simp
qed

lemma two_digits_shape:
  assumes "0 \<le> i" "i \<le> 99"
  shows "length (two_digits i) = 2 \<and> set (two_digits i) \<subseteq> set ''0123456789''"
proof (cases "i < 10")
  case True
  then have "nat i < 10" using assms by simp
  then have "length (digits (nat i)) = 1" by (rule length_digits_1)
  then show ?thesis using True assms set_digits [of "nat i"]
    by (simp add: two_digits_def decimal_def)
next
  case False
  then have "10 \<le> nat i" "nat i < 100" using assms by simp_all
  then have "length (digits (nat i)) = 2" by (rule length_digits_2)
  then show ?thesis using False assms set_digits [of "nat i"]
    by (simp add: two_digits_def decimal_def)
qed

lemma year_shape:
  assumes "1000 \<le> i" "i \<le> 9999"
  shows "length (decimal i) = 4 \<and> set (decimal i) \<subseteq> set ''0123456789''"
proof -
  have "1000 \<le> nat i" "nat i < 10000" using assms by simp_all
  then have "length (digits (nat i)) = 4" by (rule length_digits_4)
  then show ?thesis using assms set_digits [of "nat i"] by (simp add: decimal_def)
qed

lemma list_all_is_digit: "set s \<subseteq> set ''0123456789'' \<Longrightarrow> list_all is_digit (L s)"
  unfolding list_all_iff is_digit_def L_def by auto

lemma wchar_of_char_eq_0: "(of_char x :: wchar_t) = 0 \<longleftrightarrow> x = CHR 0x00"
proof -
  have "(of_char x :: wchar_t) = word_of_nat (of_char x)"
    by (simp add: of_nat_of_char)
  then have "(of_char x :: wchar_t) = 0 \<longleftrightarrow> 2 ^ 16 dvd (of_char x :: nat)"
    by (simp add: word_of_nat_eq_0_iff)
  also have "\<dots> \<longleftrightarrow> (of_char x :: nat) = 0"
  proof
    assume "2 ^ 16 dvd (of_char x :: nat)"
    moreover have "(of_char x :: nat) < 2 ^ 16"
      by (rule less_trans [OF nat_of_char_less_256]) simp
    ultimately show "(of_char x :: nat) = 0"
      by (meson dvd_imp_le not_gr_zero not_le)
  qed simp
  also have "\<dots> \<longleftrightarrow> (of_char x :: nat) = of_char (CHR 0x00)" by simp
  also have "\<dots> \<longleftrightarrow> x = CHR 0x00" by (rule of_char_eq_iff)
  finally show ?thesis .
qed

lemma c_str_L: "CHR 0x00 \<notin> set s \<Longrightarrow> c_str (L s) = L s"
proof -
  assume a: "CHR 0x00 \<notin> set s"
  have "\<forall>c \<in> set (L s). c \<noteq> 0"
  proof
    fix c assume "c \<in> set (L s)"
    then obtain x where x: "x \<in> set s" "c = of_char x" by (auto simp: L_def)
    with a show "c \<noteq> 0" by (auto simp: wchar_of_char_eq_0)
  qed
  then show ?thesis by (simp add: c_str_def takeWhile_eq_all_conv)
qed

lemma timestamp_shaped_L:
  assumes "length y = 4" "length mo = 2" "length d = 2" "length h = 2" "length mi = 2"
    "length se = 2"
    and "set y \<subseteq> set ''0123456789''" "set mo \<subseteq> set ''0123456789''"
    "set d \<subseteq> set ''0123456789''" "set h \<subseteq> set ''0123456789''"
    "set mi \<subseteq> set ''0123456789''" "set se \<subseteq> set ''0123456789''"
  shows "timestamp_shaped (L y @ L ''-'' @ L mo @ L ''-'' @ L d @ L '' '' @ L h @ L '':''
           @ L mi @ L '':'' @ L se)"
proof -
  have len: "length (L y) = 4" "length (L mo) = 2" "length (L d) = 2" "length (L h) = 2"
    "length (L mi) = 2" "length (L se) = 2"
    using assms by (simp_all add: L_def)
  have dig: "list_all is_digit (L y)" "list_all is_digit (L mo)" "list_all is_digit (L d)"
    "list_all is_digit (L h)" "list_all is_digit (L mi)" "list_all is_digit (L se)"
    using assms by (simp_all add: list_all_is_digit)
  have sep: "L ''-'' = [of_char CHR ''-'']" "L '' '' = [of_char CHR '' '']"
    "L '':'' = [of_char CHR '':'']"
    by (simp_all add: L_def)
  show ?thesis
    unfolding timestamp_shaped_def sep using len dig by simp
qed

lemma decimal_no_NUL: "CHR 0x00 \<notin> set (decimal i)"
  using set_digits [of "nat i"] set_digits [of "nat (- i)"] by (auto simp: decimal_def)

lemma two_digits_no_NUL: "CHR 0x00 \<notin> set (two_digits i)"
  using decimal_no_NUL [of i] by (simp add: two_digits_def)

lemma wcsftime_L:
  "wcsftime timeInfo =
     L (decimal (tm_year timeInfo + 1900) @ ''-'' @ two_digits (tm_mon timeInfo + 1) @ ''-''
        @ two_digits (tm_mday timeInfo) @ '' '' @ two_digits (tm_hour timeInfo) @ '':''
        @ two_digits (tm_min timeInfo) @ '':'' @ two_digits (tm_sec timeInfo))"
  by (simp add: wcsftime_def L_def)

lemma c_str_wcsftime: "c_str (wcsftime timeInfo) = wcsftime timeInfo"
  unfolding wcsftime_L by (rule c_str_L) (simp add: decimal_no_NUL two_digits_no_NUL)

lemma wcsftime_shaped:
  assumes "100 \<le> tm_year timeInfo + 1000" "tm_year timeInfo \<le> 8099"
    "0 \<le> tm_mon timeInfo" "tm_mon timeInfo \<le> 11"
    "0 \<le> tm_mday timeInfo" "tm_mday timeInfo \<le> 99"
    "0 \<le> tm_hour timeInfo" "tm_hour timeInfo \<le> 99"
    "0 \<le> tm_min timeInfo" "tm_min timeInfo \<le> 99"
    "0 \<le> tm_sec timeInfo" "tm_sec timeInfo \<le> 99"
  shows "timestamp_shaped (wcsftime timeInfo)"
proof -
  have y: "length (decimal (tm_year timeInfo + 1900)) = 4
      \<and> set (decimal (tm_year timeInfo + 1900)) \<subseteq> set ''0123456789''"
    by (rule year_shape) (use assms in simp_all)
  have mo: "length (two_digits (tm_mon timeInfo + 1)) = 2
      \<and> set (two_digits (tm_mon timeInfo + 1)) \<subseteq> set ''0123456789''"
    by (rule two_digits_shape) (use assms in simp_all)
  note d = two_digits_shape [OF assms(5,6)]
  note h = two_digits_shape [OF assms(7,8)]
  note mi = two_digits_shape [OF assms(9,10)]
  note se = two_digits_shape [OF assms(11,12)]
  show ?thesis
    unfolding wcsftime_def
    by (rule timestamp_shaped_L) (use y mo d h mi se in simp_all)
qed

lemma FormatUnixTimeToUTC_valid:
  assumes "0 \<le> sint unixTime" "sint unixTime \<le> 32535215999"
  shows "FormatUnixTimeToUTC unixTime = wcsftime (utc_fields (nat (sint unixTime)))"
    and "timestamp_shaped (FormatUnixTimeToUTC unixTime)"
proof -
  have "gmtime_s unixTime = Some (utc_fields (nat (sint unixTime)))"
    using assms by (simp add: gmtime_s_def)
  then show f: "FormatUnixTimeToUTC unixTime = wcsftime (utc_fields (nat (sint unixTime)))"
    by (simp add: FormatUnixTimeToUTC_def c_str_wcsftime)
  have "nat (sint unixTime) \<le> 32535215999" using assms by (simp add: nat_le_iff)
  from utc_fields_ranges [OF this]
  have "timestamp_shaped (wcsftime (utc_fields (nat (sint unixTime))))"
    by (intro wcsftime_shaped) simp_all
  with f show "timestamp_shaped (FormatUnixTimeToUTC unixTime)" by simp
qed

lemma FormatUnixTimeToUTC_invalid:
  assumes "sint unixTime < 0 \<or> 32535215999 < sint unixTime"
  shows "FormatUnixTimeToUTC unixTime = L ''Invalid time''"
  using assms by (auto simp: FormatUnixTimeToUTC_def gmtime_s_def)

subsection \<open>The text read back is the time that was given\<close>

lemma div_step:
  fixes y m c :: int
  assumes "0 < m" "m dvd c"
  shows "(y - c) div m = (y - (c + 1)) div m + (if m dvd y then 1 else 0)"
proof -
  have "((y - c) - 1) div m = (if (y - c) mod m = 0 then (y - c) div m - 1 else (y - c) div m)"
    using assms(1) by (rule div_pred)
  moreover have "(y - c) mod m = 0 \<longleftrightarrow> m dvd y"
    using dvd_diff_left_iff [OF assms(2), of y] by (simp add: dvd_eq_mod_eq_0)
  moreover have "y - c - 1 = y - (c + 1)" by simp
  ultimately show ?thesis by auto
qed

lemma days_before_year_Suc:
  "days_before_year (y + 1) = days_before_year y + (if gregorian_leap y then 366 else 365)"
proof -
  define A where "A = (y - 1969) div 4"
  define B where "B = (y - 1901) div 100"
  define C where "C = (y - 1601) div 400"
  have a: "(y - 1968) div 4 = A + (if 4 dvd y then 1 else 0)"
    using div_step [of 4 1968 y] by (simp add: A_def)
  have b: "(y - 1900) div 100 = B + (if 100 dvd y then 1 else 0)"
    using div_step [of 100 1900 y] by (simp add: B_def)
  have c: "(y - 1600) div 400 = C + (if 400 dvd y then 1 else 0)"
    using div_step [of 400 1600 y] by (simp add: C_def)
  have d: "400 dvd y \<Longrightarrow> 100 dvd y" "100 dvd y \<Longrightarrow> 4 dvd y"
    by (auto elim: dvd_trans [rotated])
  have n: "days_before_year (y + 1)
      = 365 * (y - 1969) + (y - 1968) div 4 - (y - 1900) div 100 + (y - 1600) div 400"
    by (simp add: days_before_year_def)
  have o: "days_before_year y = 365 * (y - 1970) + A - B + C"
    by (simp add: days_before_year_def A_def B_def C_def)
  have full: "(4 dvd y, 100 dvd y, 400 dvd y) \<in>
      {(False, False, False), (True, False, False), (True, True, False), (True, True, True)}"
    using d by auto
  then show ?thesis
    unfolding n o a b c gregorian_leap_def by auto
qed

lemma is_leap_gregorian: "is_leap y \<longleftrightarrow> gregorian_leap (int y)"
proof -
  have "\<And>m. 0 < m \<Longrightarrow> (int m dvd int y) = (y mod m = 0)"
    by (simp add: dvd_eq_mod_eq_0 flip: of_nat_mod)
  from this [of 4] this [of 100] this [of 400] show ?thesis
    by (simp add: is_leap_def gregorian_leap_def)
qed

lemma split_year_days:
  "split_year y d = (y', d') \<Longrightarrow>
     days_before_year (int y) + int d = days_before_year (int y') + int d'"
proof (induction y d rule: split_year.induct)
  case (1 y d)
  show ?case
  proof (cases "d < days_in_year y")
    case True
    with "1.prems" show ?thesis by (simp add: split_year.simps [of y d])
  next
    case False
    then have r: "split_year (Suc y) (d - days_in_year y) = (y', d')"
      using "1.prems" by (simp add: split_year.simps [of y d])
    have "days_before_year (int (Suc y)) + int (d - days_in_year y)
        = days_before_year (int y') + int d'"
      using "1.IH" [OF False r] .
    moreover have "days_before_year (int (Suc y)) = days_before_year (int y) + int (days_in_year y)"
      using days_before_year_Suc [of "int y"]
      by (simp add: days_in_year_def is_leap_gregorian add.commute)
    moreover have "int (d - days_in_year y) = int d - int (days_in_year y)"
      using False by simp
    ultimately show ?thesis by simp
  qed
qed

lemma split_month_days:
  "split_month ls m d = (m', d') \<Longrightarrow> d < sum_list ls \<Longrightarrow>
     m \<le> m' \<and> m' - m < length ls \<and> d = sum_list (take (m' - m) ls) + d' \<and> d' < ls ! (m' - m)"
proof (induction ls arbitrary: m d)
  case Nil
  then show ?case by simp
next
  case (Cons l ls)
  show ?case
  proof (cases "d < l")
    case True
    with Cons.prems show ?thesis by auto
  next
    case False
    with Cons.prems have r: "split_month ls (Suc m) (d - l) = (m', d')" "d - l < sum_list ls"
      by simp_all
    from Cons.IH [OF r] have ih: "Suc m \<le> m'" "m' - Suc m < length ls"
      "d - l = sum_list (take (m' - Suc m) ls) + d'" "d' < ls ! (m' - Suc m)"
      by simp_all
    from ih(1) have s: "m' - m = Suc (m' - Suc m)" by simp
    show ?thesis using ih False unfolding s by simp
  qed
qed

lemma month_table:
  assumes "m < 12"
  shows "int (sum_list (take m (month_lengths y))) = days_before_month (int y) (Suc m)
     \<and> int (month_lengths y ! m) = days_in_month (int y) (Suc m)"
proof -
  from assms have "m = 0 \<or> m = 1 \<or> m = 2 \<or> m = 3 \<or> m = 4 \<or> m = 5 \<or> m = 6 \<or> m = 7
      \<or> m = 8 \<or> m = 9 \<or> m = 10 \<or> m = 11"
    by arith
  then show ?thesis
    by (elim disjE)
       (simp_all add: month_lengths_def days_before_month_def days_in_month_def is_leap_gregorian)
qed

lemma digit_value_digit_char: "digit_value (of_char (digit_char n)) = n mod 10"
proof -
  define k where "k = n mod 10"
  have "k < 10" by (simp add: k_def)
  then have "k = 0 \<or> k = 1 \<or> k = 2 \<or> k = 3 \<or> k = 4 \<or> k = 5 \<or> k = 6 \<or> k = 7 \<or> k = 8 \<or> k = 9"
    by arith
  then have "digit_value (of_char (''0123456789'' ! k)) = k"
    by (elim disjE) (simp_all add: digit_value_def)
  then show ?thesis by (simp add: digit_char_def k_def)
qed

lemma read_number_snoc: "read_number (s @ [c]) = 10 * read_number s + digit_value c"
  by (simp add: read_number_def)

lemma read_number_digits: "read_number (L (digits n)) = n"
proof (induction n rule: digits.induct)
  case (1 n)
  show ?case
  proof (cases "n < 10")
    case True
    then have "digits n = [digit_char n]" by (simp add: digits.simps [of n])
    then have "read_number (L (digits n)) = digit_value (of_char (digit_char n))"
      by (simp add: L_def read_number_def)
    with True show ?thesis by (simp add: digit_value_digit_char)
  next
    case False
    then have "digits n = digits (n div 10) @ [digit_char n]" by (simp add: digits.simps [of n])
    then have "L (digits n) = L (digits (n div 10)) @ [of_char (digit_char n)]"
      by (simp add: L_def)
    then have "read_number (L (digits n)) = 10 * (n div 10) + n mod 10"
      using "1.IH" [OF False] by (simp add: read_number_snoc digit_value_digit_char)
    then show ?thesis by simp
  qed
qed

lemma read_number_decimal: "0 \<le> i \<Longrightarrow> read_number (L (decimal i)) = nat i"
  by (simp add: decimal_def read_number_digits)

lemma read_number_two_digits: "0 \<le> i \<Longrightarrow> read_number (L (two_digits i)) = nat i"
proof -
  assume a: "0 \<le> i"
  have z: "read_number (L (CHR ''0'' # s)) = read_number (L s)" for s
    by (simp add: read_number_def L_def digit_value_def)
  show ?thesis using a by (simp add: two_digits_def z read_number_decimal)
qed

lemma timestamp_parts:
  assumes "length y = 4" "length mo = 2" "length d = 2" "length h = 2" "length mi = 2"
    "length se = 2"
  defines "s \<equiv> L y @ L ''-'' @ L mo @ L ''-'' @ L d @ L '' '' @ L h @ L '':'' @ L mi @ L '':'' @ L se"
  shows "take 4 s = L y" "take 2 (drop 5 s) = L mo" "take 2 (drop 8 s) = L d"
    "take 2 (drop 11 s) = L h" "take 2 (drop 14 s) = L mi" "take 2 (drop 17 s) = L se"
proof -
  have len: "length (L y) = 4" "length (L mo) = 2" "length (L d) = 2" "length (L h) = 2"
    "length (L mi) = 2" "length (L se) = 2"
    using assms by (simp_all add: L_def)
  have sep: "L ''-'' = [of_char CHR ''-'']" "L '' '' = [of_char CHR '' '']"
    "L '':'' = [of_char CHR '':'']"
    by (simp_all add: L_def)
  show "take 4 s = L y" "take 2 (drop 5 s) = L mo" "take 2 (drop 8 s) = L d"
    "take 2 (drop 11 s) = L h" "take 2 (drop 14 s) = L mi" "take 2 (drop 17 s) = L se"
    unfolding s_def sep using len by simp_all
qed

lemma time_of_day:
  fixes r :: nat
  shows "(r div 3600 * 60 + r div 60 mod 60) * 60 + r mod 60 = r"
proof -
  have "r div 3600 = r div 60 div 60" by (simp add: div_mult2_eq)
  then have "r div 3600 * 60 + r div 60 mod 60 = r div 60" by simp
  then show ?thesis by simp
qed

lemma days_before_year_1970: "days_before_year 1970 = 0"
  by (simp add: days_before_year_def)

lemma read_wcsftime_utc_fields:
  assumes "s \<le> 32535215999"
  shows "read_timestamp (wcsftime (utc_fields s)) = Some (int s)"
proof -
  obtain y yd where sy: "split_year 1970 (s div 86400) = (y, yd)" by (meson surj_pair)
  obtain m md where sm: "split_month (month_lengths y) 0 yd = (m, md)" by (meson surj_pair)
  define r where "r = s mod 86400"
  define out where "out = wcsftime (utc_fields s)"
  have fields: "tm_year (utc_fields s) = int y - 1900" "tm_mon (utc_fields s) = int m"
    "tm_mday (utc_fields s) = int md + 1" "tm_hour (utc_fields s) = int (r div 3600)"
    "tm_min (utc_fields s) = int (r div 60 mod 60)" "tm_sec (utc_fields s) = int (r mod 60)"
    by (simp_all add: utc_fields_def sy sm Let_def r_def)
  note rg = utc_fields_ranges [OF assms, unfolded fields]
  \<comment> \<open>the calendar\<close>
  from split_year_bounds [OF sy] have y: "1970 \<le> y" "yd < days_in_year y" by simp_all
  have "yd < sum_list (month_lengths y)" using y(2) by (simp add: sum_month_lengths)
  from split_month_days [OF sm this]
  have m: "m < 12" "yd = sum_list (take m (month_lengths y)) + md" "md < month_lengths y ! m"
    by (simp_all add: month_lengths_def)
  from month_table [OF m(1), of y]
  have mt: "int (sum_list (take m (month_lengths y))) = days_before_month (int y) (Suc m)"
    "int (month_lengths y ! m) = days_in_month (int y) (Suc m)"
    by simp_all
  have days: "days_before_year (int y) + days_before_month (int y) (Suc m) + int md
      = int (s div 86400)"
    using split_year_days [OF sy] m(2) mt(1) by (simp add: days_before_year_1970)
  have dim: "int md + 1 \<le> days_in_month (int y) (Suc m)"
    using m(3) mt(2) by simp
  \<comment> \<open>the text\<close>
  have ys: "length (decimal (int y)) = 4 \<and> set (decimal (int y)) \<subseteq> set ''0123456789''"
    by (rule year_shape) (use rg in simp_all)
  have mos: "length (two_digits (int m + 1)) = 2" "length (two_digits (int md + 1)) = 2"
    "length (two_digits (int (r div 3600))) = 2" "length (two_digits (int (r div 60 mod 60))) = 2"
    "length (two_digits (int (r mod 60))) = 2"
    using rg by (simp_all add: two_digits_shape)
  have t: "out = L (decimal (int y)) @ L ''-'' @ L (two_digits (int m + 1)) @ L ''-''
      @ L (two_digits (int md + 1)) @ L '' '' @ L (two_digits (int (r div 3600))) @ L '':''
      @ L (two_digits (int (r div 60 mod 60))) @ L '':'' @ L (two_digits (int (r mod 60)))"
    by (simp add: out_def wcsftime_def fields)
  note parts = timestamp_parts [OF conjunct1 [OF ys] mos, folded t]
  have shaped: "timestamp_shaped out"
    unfolding out_def by (rule wcsftime_shaped) (use rg in \<open>simp_all add: fields\<close>)
  have nums: "read_number (take 4 out) = y" "read_number (take 2 (drop 5 out)) = Suc m"
    "read_number (take 2 (drop 8 out)) = Suc md" "read_number (take 2 (drop 11 out)) = r div 3600"
    "read_number (take 2 (drop 14 out)) = r div 60 mod 60"
    "read_number (take 2 (drop 17 out)) = r mod 60"
    unfolding parts
    by (simp_all add: read_number_decimal read_number_two_digits nat_add_distrib)
  \<comment> \<open>the count of seconds\<close>
  have tod: "(int (r div 3600) * 60 + int (r div 60 mod 60)) * 60 + int (r mod 60) = int r"
    using time_of_day [of r] by (metis of_nat_add of_nat_mult of_nat_numeral)
  have "int s = int (s div 86400) * 86400 + int r"
    unfolding r_def by (metis of_nat_add of_nat_mult of_nat_numeral div_mult_mod_eq)
  then have total: "(((days_before_year (int y) + days_before_month (int y) (Suc m) + int md) * 24
        + int (r div 3600)) * 60 + int (r div 60 mod 60)) * 60 + int (r mod 60) = int s"
    unfolding days using tod by (simp add: algebra_simps)
  have valid: "1970 \<le> int y" "Suc m \<le> 12" "int (Suc md) \<le> days_in_month (int y) (Suc m)"
    "int (r div 3600) \<le> 23" "int (r div 60 mod 60) \<le> 59" "int (r mod 60) \<le> 59"
    using y(1) m(1) dim rg by simp_all
  have "read_timestamp out = Some (int s)"
    unfolding read_timestamp_def nums Let_def using shaped valid total by simp
  then show ?thesis by (simp add: out_def)
qed

lemma FormatUnixTimeToUTC_read:
  assumes "0 \<le> sint unixTime" "sint unixTime \<le> 32535215999"
  shows "read_timestamp (FormatUnixTimeToUTC unixTime) = Some (sint unixTime)"
proof -
  have "nat (sint unixTime) \<le> 32535215999" using assms by (simp add: nat_le_iff)
  from read_wcsftime_utc_fields [OF this] assms show ?thesis
    by (simp add: FormatUnixTimeToUTC_valid(1))
qed

text \<open>
  C7. The formatter renders every time from 1970-01-01 00:00:00 to 3000-12-31 23:59:59 UTC
  in the shape \<^verbatim>\<open>YYYY-MM-DD HH:MM:SS\<close>, and the text is the UTC date and time of its
  input: read back as a date and time of the Gregorian calendar in UTC, it names the very
  second that was given. For every other time, which the runtime cannot break down into
  calendar fields, it returns the text \<^verbatim>\<open>Invalid time\<close>. It is a total function: it
  returns a string on every input.
\<close>

theorem format_utc_or_sentinel:
  "(0 \<le> sint unixTime \<and> sint unixTime \<le> 32535215999 \<longrightarrow>
      timestamp_shaped (FormatUnixTimeToUTC unixTime)
      \<and> read_timestamp (FormatUnixTimeToUTC unixTime) = Some (sint unixTime))
   \<and> (sint unixTime < 0 \<or> 32535215999 < sint unixTime \<longrightarrow>
      FormatUnixTimeToUTC unixTime = L ''Invalid time'')"
  using FormatUnixTimeToUTC_valid(2) [of unixTime] FormatUnixTimeToUTC_read [of unixTime]
    FormatUnixTimeToUTC_invalid [of unixTime]
  by blast

lemmas calendar_eval = FormatUnixTimeToUTC_def gmtime_s_def utc_fields_def split_year.simps
  days_in_year_def is_leap_def month_lengths_def wcsftime_def decimal_def two_digits_def
  digits.simps digit_char_def L_def c_str_def Let_def

theorem format_utc_or_sentinel_witness:
  "0 \<le> sint (1704067740 :: time_t) \<and> sint (1704067740 :: time_t) \<le> 32535215999
   \<and> FormatUnixTimeToUTC 1704067740 = L ''2024-01-01 00:09:00''
   \<and> timestamp_shaped (L ''2024-01-01 00:09:00'')
   \<and> read_timestamp (L ''2024-01-01 00:09:00'') = Some 1704067740
   \<and> FormatUnixTimeToUTC 951825600 = L ''2000-02-29 12:00:00''
   \<and> FormatUnixTimeToUTC 4107542399 = L ''2100-02-28 23:59:59''
   \<and> FormatUnixTimeToUTC 4107542400 = L ''2100-03-01 00:00:00''
   \<and> FormatUnixTimeToUTC 32535215999 = L ''3000-12-31 23:59:59''
   \<and> sint (- 1 :: time_t) < 0
   \<and> FormatUnixTimeToUTC (- 1) = L ''Invalid time''
   \<and> FormatUnixTimeToUTC 32535216000 = L ''Invalid time''"
proof -
  have v: "FormatUnixTimeToUTC 1704067740 = L ''2024-01-01 00:09:00''"
    "FormatUnixTimeToUTC 951825600 = L ''2000-02-29 12:00:00''"
    "FormatUnixTimeToUTC 4107542399 = L ''2100-02-28 23:59:59''"
    "FormatUnixTimeToUTC 4107542400 = L ''2100-03-01 00:00:00''"
    "FormatUnixTimeToUTC 32535215999 = L ''3000-12-31 23:59:59''"
    by (simp_all add: calendar_eval)
  have r: "0 \<le> sint (1704067740 :: time_t) \<and> sint (1704067740 :: time_t) \<le> 32535215999"
    by simp
  have s: "timestamp_shaped (FormatUnixTimeToUTC 1704067740)
      \<and> read_timestamp (FormatUnixTimeToUTC 1704067740) = Some (sint (1704067740 :: time_t))"
    using format_utc_or_sentinel [of 1704067740] r by blast
  have i: "FormatUnixTimeToUTC (- 1) = L ''Invalid time''"
    "FormatUnixTimeToUTC 32535216000 = L ''Invalid time''"
    using format_utc_or_sentinel [of "- 1"] format_utc_or_sentinel [of 32535216000] by simp_all
  show ?thesis using r v s i by simp
qed

section \<open>The extraction of one store\<close>

lemma wprintf_fields [simp]:
  "stdout (wprintf text w) = stdout w @ [text]"
  "files (wprintf text w) = files w"
  "time_now (wprintf text w) = time_now w"
  "SHGetFolderPathW (wprintf text w) = SHGetFolderPathW w"
  "GetTempPathW (wprintf text w) = GetTempPathW w"
  "GetTempFileNameW (wprintf text w) = GetTempFileNameW w"
  "MultiByteToWideChar (wprintf text w) = MultiByteToWideChar w"
  "what (wprintf text w) = what w"
  by (simp_all add: wprintf_def)

lemma tempDbPath_of_wprintf [simp]: "tempDbPath_of (wprintf text w) = tempDbPath_of w"
  by (cases "GetTempPathW w") (simp_all add: tempDbPath_of_def)

lemma GetUserProfilePath_wprintf [simp]:
  "GetUserProfilePath (wprintf text w) = GetUserProfilePath w"
  by (simp add: GetUserProfilePath_def)

lemma hits_Cons:
  "hits ct tr ((url, vt) # rows) =
     (if in_time_range ct tr (ConvertWebKitToUnixTime vt) then (url, vt) # hits ct tr rows
      else hits ct tr rows)"
  by (simp add: hits_def)

lemma print_rows_eq:
  "print_rows ct tr rows w =
     (if null_hit ct tr rows then Inl NullPointerString
      else Inr (w\<lparr>stdout := stdout w @ map (entry_line (MultiByteToWideChar w)) (hits ct tr rows)\<rparr>))"
proof (induction rows arbitrary: w)
  case Nil
  show ?case by (simp add: null_hit_def hits_def)
next
  case (Cons row rows)
  obtain url vt where row: "row = (url, vt)" by (cases row)
  show ?case
  proof (cases "in_time_range ct tr (ConvertWebKitToUnixTime vt)")
    case False
    then show ?thesis
      by (simp add: row Cons.IH null_hit_def hits_Cons)
  next
    case True
    show ?thesis
    proof (cases url)
      case None
      with True show ?thesis
        by (simp add: row null_hit_def hits_Cons std_string_def)
    next
      case (Some bytes)
      with True show ?thesis
        by (simp add: row Cons.IH null_hit_def hits_Cons std_string_def entry_line_def Let_def
              wprintf_def)
    qed
  qed
qed

lemma CopyDatabaseToTemp_None:
  "tempDbPath_of w = None \<Longrightarrow> CopyDatabaseToTemp dbPath w = (False, [], w)"
  by (auto simp: tempDbPath_of_def CopyDatabaseToTemp_def split: option.splits)

lemma CopyDatabaseToTemp_Some:
  "tempDbPath_of w = Some t \<Longrightarrow>
     CopyDatabaseToTemp dbPath w =
       (case copy_file dbPath t ((files w)(t \<mapsto> empty_file)) of
          Some fs \<Rightarrow> (True, t, w\<lparr>files := fs\<rparr>)
        | None \<Rightarrow>
            (False, t,
             wprintf (L ''Failed to copy database: ''
                      @ c_str (ConvertUtf8ToWide (MultiByteToWideChar w) (what w))
                      @ L ''\<newline>'') (w\<lparr>files := (files w)(t \<mapsto> empty_file)\<rparr>)))"
  by (auto simp: tempDbPath_of_def CopyDatabaseToTemp_def Let_def split: option.splits)

lemma copy_file_Some:
  "copy_file from to fs = Some fs' \<Longrightarrow>
     \<exists>f. fs from = Some f \<and> \<not> locked f \<and> from \<noteq> to \<and> fs' = fs(to \<mapsto> f\<lparr>locked := False\<rparr>)"
  by (auto simp: copy_file_def split: option.splits if_splits)

lemma PrintUrlsFromDatabase_rows:
  assumes "store_rows dbPath w = Some rows"
  shows "\<exists>t. tempDbPath_of w = Some t \<and> t \<noteq> dbPath \<and>
     PrintUrlsFromDatabase dbPath ct tr w =
       (if null_hit ct tr rows then Inl NullPointerString
        else Inr (w\<lparr>stdout := stdout w @ map (entry_line (MultiByteToWideChar w)) (hits ct tr rows),
                   files := (files w)(t := None)\<rparr>))"
proof (cases "tempDbPath_of w")
  case None
  with assms show ?thesis by (simp add: store_rows_def CopyDatabaseToTemp_None)
next
  case (Some t)
  note c = CopyDatabaseToTemp_Some [OF Some, of dbPath]
  show ?thesis
  proof (cases "copy_file dbPath t ((files w)(t \<mapsto> empty_file))")
    case None
    with assms c show ?thesis by (simp add: store_rows_def)
  next
    case (Some fs)
    from copy_file_Some [OF this] obtain f where
      f: "t \<noteq> dbPath" "fs = (files w)(t \<mapsto> f\<lparr>locked := False\<rparr>)"
      by auto
    from assms c Some obtain db where
      db: "sqlite3_open16 fs t = Some db" "sqlite3_prepare_v2 db = Inr rows"
      by (auto simp: store_rows_def split: option.splits sum.splits)
    have "PrintUrlsFromDatabase dbPath ct tr w =
       (if null_hit ct tr rows then Inl NullPointerString
        else Inr (w\<lparr>stdout := stdout w @ map (entry_line (MultiByteToWideChar w)) (hits ct tr rows),
                   files := (files w)(t := None)\<rparr>))"
      using db unfolding f(2)
      by (simp add: PrintUrlsFromDatabase_def c Some print_rows_eq f)
    with \<open>tempDbPath_of w = Some t\<close> f(1) show ?thesis by simp
  qed
qed

lemma store_rows_History:
  assumes "files w dbPath = Some f" "data f = History urls visits" "\<not> locked f"
    and "tempDbPath_of w = Some t" "t \<noteq> dbPath"
  shows "store_rows dbPath w = Some (run_query urls visits)"
proof -
  have "copy_file dbPath t ((files w)(t \<mapsto> empty_file))
      = Some ((files w)(t \<mapsto> f\<lparr>locked := False\<rparr>))"
    using assms by (auto simp: copy_file_def)
  then show ?thesis
    using assms
    by (simp add: store_rows_def CopyDatabaseToTemp_Some [OF assms(4)] sqlite3_open16_def
          sqlite3_prepare_v2_def)
qed

lemma run_query_descending:
  "sorted_wrt (\<lambda>a b. sint (snd b) \<le> sint (snd a)) (run_query urls visits)"
proof -
  have "sorted (map (\<lambda>(url, visit_time). - sint visit_time) (run_query urls visits))"
    unfolding run_query_def by (rule sorted_sort_key)
  then show ?thesis
    by (simp add: sorted_map case_prod_beta)
qed

lemma hits_descending:
  "sorted_wrt (\<lambda>a b. sint (snd b) \<le> sint (snd a)) (hits ct tr (run_query urls visits))"
  unfolding hits_def by (rule sorted_wrt_filter) (rule run_query_descending)

lemma c_str_FormatUnixTimeToUTC: "c_str (FormatUnixTimeToUTC t) = FormatUnixTimeToUTC t"
proof (cases "gmtime_s t")
  case None
  have "c_str (L ''Invalid time'') = L ''Invalid time''"
    by (rule c_str_L) simp
  with None show ?thesis by (simp add: FormatUnixTimeToUTC_def)
next
  case (Some timeInfo)
  then show ?thesis
    by (simp add: FormatUnixTimeToUTC_def c_str_wcsftime c_str_def)
qed

lemma drop_to_tail: "length ys = n \<Longrightarrow> drop (length (xs @ ys) - n) (xs @ ys) = ys"
  by simp

lemma url_line_shaped:
  assumes "timestamp_shaped ts" "c_str ts = ts"
  shows "entry_shaped (url_line u ts)"
proof -
  define A where "A = L ''URL: ''"
  define B where "B = L '', Visit Time (UTC): ''"
  define N where "N = L ''\<newline>''"
  define line where "line = url_line u ts"
  have len: "length A = 5" "length B = 20" "length N = 1" "length ts = 19"
    using assms(1) by (simp_all add: A_def B_def N_def L_def timestamp_shaped_def)
  have l0: "line = A @ c_str u @ B @ ts @ N"
    by (simp add: line_def url_line_def A_def B_def N_def assms(2))
  have "line = (A @ c_str u) @ (B @ ts @ N)" by (simp add: l0)
  from arg_cong [OF this, of "\<lambda>l. drop (length l - 40) l"]
  have d40: "drop (length line - 40) line = B @ ts @ N"
    using drop_to_tail [of "B @ ts @ N" 40 "A @ c_str u"] len by simp
  have "line = (A @ c_str u @ B) @ (ts @ N)" by (simp add: l0)
  from arg_cong [OF this, of "\<lambda>l. drop (length l - 20) l"]
  have d20: "drop (length line - 20) line = ts @ N"
    using drop_to_tail [of "ts @ N" 20 "A @ c_str u @ B"] len by simp
  have "line = (A @ c_str u @ B @ ts) @ N" by (simp add: l0)
  from arg_cong [OF this, of "\<lambda>l. drop (length l - 1) l"]
  have d1: "drop (length line - 1) line = N"
    using drop_to_tail [of N 1 "A @ c_str u @ B @ ts"] len by simp
  have t5: "take 5 line = A" using len by (simp add: l0)
  have n: "45 \<le> length line" using len by (simp add: l0)
  have "entry_shaped line"
    unfolding entry_shaped_def d40 d20 d1 t5
    using n len assms(1) by (simp add: A_def B_def N_def)
  then show ?thesis by (simp add: line_def)
qed

lemma PrintUrlsFromDatabase_fails:
  assumes "store_rows dbPath w = None"
  shows "\<exists>diag fs. PrintUrlsFromDatabase dbPath ct tr w = Inr (w\<lparr>stdout := stdout w @ diag, files := fs\<rparr>)
     \<and> diag \<noteq> [] \<and> list_all (\<lambda>l. \<not> is_entry l) diag
     \<and> (\<forall>q. tempDbPath_of w \<noteq> Some q \<longrightarrow> fs q = files w q)
     \<and> (\<forall>t. tempDbPath_of w = Some t \<longrightarrow> fs t \<noteq> None)"
proof (cases "tempDbPath_of w")
  case None
  have "PrintUrlsFromDatabase dbPath ct tr w =
      Inr (w\<lparr>stdout := stdout w @ [L ''Failed to copy database to temporary file: '' @ c_str dbPath @ L ''\<newline>''],
             files := files w\<rparr>)"
    by (simp add: PrintUrlsFromDatabase_def CopyDatabaseToTemp_None [OF None] wprintf_def)
  moreover have "\<not> is_entry (L ''Failed to copy database to temporary file: '' @ c_str dbPath @ L ''\<newline>'')"
    by (simp add: is_entry_def L_def)
  ultimately show ?thesis using None by fastforce
next
  case (Some t)
  note c = CopyDatabaseToTemp_Some [OF Some, of dbPath]
  show ?thesis
  proof (cases "copy_file dbPath t ((files w)(t \<mapsto> empty_file))")
    case None
    let ?d1 = "L ''Failed to copy database: ''
                 @ c_str (ConvertUtf8ToWide (MultiByteToWideChar w) (what w)) @ L ''\<newline>''"
    let ?d2 = "L ''Failed to copy database to temporary file: '' @ c_str dbPath @ L ''\<newline>''"
    have "PrintUrlsFromDatabase dbPath ct tr w =
        Inr (w\<lparr>stdout := stdout w @ [?d1, ?d2], files := (files w)(t \<mapsto> empty_file)\<rparr>)"
      by (simp add: PrintUrlsFromDatabase_def c None wprintf_def)
    moreover have "\<not> is_entry ?d1" "\<not> is_entry ?d2"
      by (simp_all add: is_entry_def L_def)
    ultimately show ?thesis using Some by fastforce
  next
    case (Some fs)
    from copy_file_Some [OF this] obtain f where
      f: "t \<noteq> dbPath" "fs = (files w)(t \<mapsto> f\<lparr>locked := False\<rparr>)"
      by auto
    show ?thesis
    proof (cases "sqlite3_open16 fs t")
      case None
      let ?d = "L ''Failed to open database: '' @ c_str t @ L ''\<newline>''"
      have "PrintUrlsFromDatabase dbPath ct tr w = Inr (w\<lparr>stdout := stdout w @ [?d], files := fs\<rparr>)"
        by (simp add: PrintUrlsFromDatabase_def c Some None wprintf_def)
      moreover have "\<not> is_entry ?d" by (simp add: is_entry_def L_def)
      ultimately show ?thesis using \<open>tempDbPath_of w = Some t\<close> f by fastforce
    next
      case (Some db)
      with assms c \<open>copy_file dbPath t ((files w)(t \<mapsto> empty_file)) = Some fs\<close>
      obtain errmsg where e: "sqlite3_prepare_v2 db = Inl errmsg"
        by (auto simp: store_rows_def split: sum.splits)
      let ?d = "L ''Failed to prepare statement: '' @ L errmsg @ L ''\<newline>''"
      have "PrintUrlsFromDatabase dbPath ct tr w = Inr (w\<lparr>stdout := stdout w @ [?d], files := fs\<rparr>)"
        by (simp add: PrintUrlsFromDatabase_def c
              \<open>copy_file dbPath t ((files w)(t \<mapsto> empty_file)) = Some fs\<close> Some e wprintf_def)
      moreover have "\<not> is_entry ?d" by (simp add: is_entry_def L_def)
      ultimately show ?thesis using \<open>tempDbPath_of w = Some t\<close> f by fastforce
    qed
  qed
qed

lemma PrintUrlsFromDatabase_frame:
  assumes "PrintUrlsFromDatabase dbPath ct tr w = Inr w'" "tempDbPath_of w \<noteq> Some q"
  shows "files w' q = files w q"
proof (cases "store_rows dbPath w")
  case None
  from PrintUrlsFromDatabase_fails [OF None, of ct tr] assms show ?thesis by auto
next
  case (Some rows)
  from PrintUrlsFromDatabase_rows [OF Some, of ct tr] assms show ?thesis
    by (auto split: if_splits)
qed

lemma CopyDatabaseToTemp_frame:
  assumes "tempDbPath_of w \<noteq> Some q"
  shows "files (snd (snd (CopyDatabaseToTemp dbPath w))) q = files w q"
proof (cases "tempDbPath_of w")
  case None
  then show ?thesis by (simp add: CopyDatabaseToTemp_None)
next
  case (Some t)
  with assms have "t \<noteq> q" by simp
  then show ?thesis
    by (auto simp: CopyDatabaseToTemp_Some [OF Some] copy_file_def split: option.splits)
qed


lemmas run_eval = wmain_def PrintUrlsFromDatabase_def CopyDatabaseToTemp_def copy_file_def
  sqlite3_open16_def sqlite3_prepare_v2_def run_query_def wprintf_def GetUserProfilePath_def
  chromeHistoryPath_def edgeHistoryPath_def below_def empty_file_def url_line_def
  std_string_def ConvertUtf8ToWide_def codec_eval calendar_eval
  tempDbPath_of_def store_rows_def hits_def null_hit_def entry_line_def
  ascii_to_wide_def first_unused_def machine_def chrome_path_def edge_path_def
  bare_machine_def no_profile_machine_def scenario_machine_def garbage_machine_def
  ten_row_machine_def far_future_machine_def edge_only_machine_def
  scenario_store_def garbage_file_def ten_row_store_def far_future_store_def
  file_after_def printed_def exit_status_def printed_at_exit_def

text \<open>
  C1. The snapshot is not removed on every path. When the store path names no file, the
  copy fails and the empty file that \<^verbatim>\<open>GetTempFileNameW\<close> created stays in the temporary
  directory; when the store is no database, the prepare fails and the copy stays there.
  Only the run that reaches the end of the row loop removes its snapshot.
\<close>

theorem snapshot_left_behind:
  "file_after (L ''T:dbc1.tmp'') (PrintUrlsFromDatabase chrome_path 1704067800 600 bare_machine)
     = Some (Some empty_file)
   \<and> file_after (L ''T:dbc1.tmp'')
       (PrintUrlsFromDatabase chrome_path 1704067800 600 garbage_machine)
     = Some (Some garbage_file)
   \<and> file_after (L ''T:dbc1.tmp'')
       (PrintUrlsFromDatabase chrome_path 1704067800 600 scenario_machine) = Some None"
  by (simp add: run_eval)

text \<open>
  C2. A store with nine rows of a well-formed url and one row of a NULL url, all ten
  visited within the time range, yields no nine entries: the extraction builds a
  \<^verbatim>\<open>std::string\<close> from the null pointer of the NULL url and faults.
\<close>

theorem null_url_row_faults:
  "PrintUrlsFromDatabase chrome_path 1704067800 600 ten_row_machine = Inl NullPointerString"
  by (simp add: run_eval)

text \<open>
  C8 as stated fails: a visit dated after the year 3000 is inside every time range, and
  its line carries the text \<^verbatim>\<open>Invalid time\<close> where the timestamp should be.
\<close>

theorem entry_line_counterexample:
  "printed (PrintUrlsFromDatabase chrome_path 1704067800 600 far_future_machine)
     = Some [L ''URL: https://example.com, Visit Time (UTC): Invalid time\<newline>'']
   \<and> \<not> entry_shaped (L ''URL: https://example.com, Visit Time (UTC): Invalid time\<newline>'')"
  by (simp add: run_eval entry_shaped_def timestamp_shaped_def is_digit_def)

lemma entry_line_Some:
  "entry_line mb2wc (Some bytes, vt) =
     url_line (ConvertUtf8ToWide mb2wc (takeWhile (\<lambda>c. c \<noteq> CHR 0x00) bytes))
       (FormatUnixTimeToUTC (ConvertWebKitToUnixTime vt))"
  by (simp add: entry_line_def std_string_def)

lemma entry_line_cases:
  assumes "fst row \<noteq> None"
  shows "(0 \<le> sint (ConvertWebKitToUnixTime (snd row))
          \<and> sint (ConvertWebKitToUnixTime (snd row)) \<le> 32535215999
        \<longrightarrow> entry_shaped (entry_line mb2wc row))
     \<and> (sint (ConvertWebKitToUnixTime (snd row)) < 0
          \<or> 32535215999 < sint (ConvertWebKitToUnixTime (snd row))
        \<longrightarrow> (\<exists>url. entry_line mb2wc row
              = L ''URL: '' @ url @ L '', Visit Time (UTC): Invalid time\<newline>''))"
proof -
  obtain bytes vt where row: "row = (Some bytes, vt)"
    using assms by (cases row) auto
  define t where "t = ConvertWebKitToUnixTime vt"
  define u where "u = ConvertUtf8ToWide mb2wc (takeWhile (\<lambda>c. c \<noteq> CHR 0x00) bytes)"
  have e: "entry_line mb2wc row = url_line u (FormatUnixTimeToUTC t)"
    by (simp add: row entry_line_Some t_def u_def)
  have shaped: "entry_shaped (entry_line mb2wc row)"
    if "0 \<le> sint t \<and> sint t \<le> 32535215999"
  proof -
    have "timestamp_shaped (FormatUnixTimeToUTC t)"
      using that by (intro FormatUnixTimeToUTC_valid(2)) simp_all
    then show ?thesis
      unfolding e by (rule url_line_shaped) (rule c_str_FormatUnixTimeToUTC)
  qed
  have sentinel: "entry_line mb2wc row
      = L ''URL: '' @ c_str u @ L '', Visit Time (UTC): Invalid time\<newline>''"
    if "sint t < 0 \<or> 32535215999 < sint t"
  proof -
    have f: "FormatUnixTimeToUTC t = L ''Invalid time''"
      using that by (rule FormatUnixTimeToUTC_invalid)
    have "c_str (L ''Invalid time'') = L ''Invalid time''" by (rule c_str_L) simp
    then show ?thesis by (simp add: e f url_line_def L_def)
  qed
  show ?thesis using shaped sentinel by (auto simp: row t_def)
qed

text \<open>
  C8, as amended. For a history store that can be copied, and whose rows inside the time
  range all have a url that is not NULL, one extraction prints exactly the rows of the
  query result that lie inside the time range, in the order of the query result, which
  is descending in the encoded visit timestamp. Each line is
  \<^verbatim>\<open>URL: <url>, Visit Time (UTC): <YYYY-MM-DD HH:MM:SS>\<close> when the decoded time lies from
  1970-01-01 00:00:00 to 3000-12-31 23:59:59 UTC, and carries \<^verbatim>\<open>Invalid time\<close> in place of
  the timestamp otherwise.
\<close>

theorem entries_in_query_order:
  assumes "files w dbPath = Some f" "data f = History urls visits" "\<not> locked f"
    and "tempDbPath_of w = Some t" "t \<noteq> dbPath"
    and "\<not> null_hit ct tr (run_query urls visits)"
  shows "\<exists>w'. PrintUrlsFromDatabase dbPath ct tr w = Inr w'
     \<and> stdout w' = stdout w
          @ map (entry_line (MultiByteToWideChar w)) (hits ct tr (run_query urls visits))
     \<and> sorted_wrt (\<lambda>a b. sint (snd b) \<le> sint (snd a)) (hits ct tr (run_query urls visits))
     \<and> (\<forall>row \<in> set (hits ct tr (run_query urls visits)).
          (0 \<le> sint (ConvertWebKitToUnixTime (snd row))
             \<and> sint (ConvertWebKitToUnixTime (snd row)) \<le> 32535215999
           \<longrightarrow> entry_shaped (entry_line (MultiByteToWideChar w) row))
          \<and> (sint (ConvertWebKitToUnixTime (snd row)) < 0
             \<or> 32535215999 < sint (ConvertWebKitToUnixTime (snd row))
           \<longrightarrow> (\<exists>url. entry_line (MultiByteToWideChar w) row
                 = L ''URL: '' @ url @ L '', Visit Time (UTC): Invalid time\<newline>'')))"
proof -
  have rows: "store_rows dbPath w = Some (run_query urls visits)"
    using assms(1-5) by (rule store_rows_History)
  from PrintUrlsFromDatabase_rows [OF rows, of ct tr] assms(6)
  obtain w' where w': "PrintUrlsFromDatabase dbPath ct tr w = Inr w'"
    "stdout w' = stdout w
       @ map (entry_line (MultiByteToWideChar w)) (hits ct tr (run_query urls visits))"
    by auto
  have nn: "fst row \<noteq> None" if "row \<in> set (hits ct tr (run_query urls visits))" for row
    using that assms(6) by (auto simp: null_hit_def list_ex_iff)
  show ?thesis
    using w' hits_descending [of ct tr urls visits] entry_line_cases [OF nn]
    by blast
qed

theorem entries_in_query_order_witness:
  "files scenario_machine chrome_path = Some scenario_store
   \<and> data scenario_store
       = History [(1, Some ''https://example.com'')]
           [(1, 13348540800000000), (1, 13348541340000000)]
   \<and> \<not> locked scenario_store
   \<and> tempDbPath_of scenario_machine = Some (L ''T:dbc1.tmp'')
   \<and> L ''T:dbc1.tmp'' \<noteq> chrome_path
   \<and> \<not> null_hit 1704067800 600
         (run_query [(1, Some ''https://example.com'')]
            [(1, 13348540800000000), (1, 13348541340000000)])
   \<and> printed (PrintUrlsFromDatabase chrome_path 1704067800 600 scenario_machine)
       = Some [L ''URL: https://example.com, Visit Time (UTC): 2024-01-01 00:09:00\<newline>'',
               L ''URL: https://example.com, Visit Time (UTC): 2024-01-01 00:00:00\<newline>'']
   \<and> entry_shaped (L ''URL: https://example.com, Visit Time (UTC): 2024-01-01 00:09:00\<newline>'')"
proof -
  let ?urls = "[(1, Some ''https://example.com'')] :: (int \<times> string option) list"
  let ?visits = "[(1, 13348540800000000), (1, 13348541340000000)] :: (int \<times> int64_t) list"
  have h: "files scenario_machine chrome_path = Some scenario_store"
    "data scenario_store = History ?urls ?visits"
    "\<not> locked scenario_store"
    "tempDbPath_of scenario_machine = Some (L ''T:dbc1.tmp'')"
    "L ''T:dbc1.tmp'' \<noteq> chrome_path"
    "\<not> null_hit 1704067800 600 (run_query ?urls ?visits)"
    by (simp_all add: run_eval)
  have v: "hits 1704067800 600 (run_query ?urls ?visits)
      = [(Some ''https://example.com'', 13348541340000000),
         (Some ''https://example.com'', 13348540800000000)]"
    by (simp add: run_eval)
  have l: "entry_line (MultiByteToWideChar scenario_machine)
        (Some ''https://example.com'', 13348541340000000)
      = L ''URL: https://example.com, Visit Time (UTC): 2024-01-01 00:09:00\<newline>''"
    "entry_line (MultiByteToWideChar scenario_machine)
        (Some ''https://example.com'', 13348540800000000)
      = L ''URL: https://example.com, Visit Time (UTC): 2024-01-01 00:00:00\<newline>''"
    by (simp_all add: run_eval)
  have s0: "stdout scenario_machine = []" by (simp add: run_eval)
  have r: "0 \<le> sint (ConvertWebKitToUnixTime 13348541340000000)
      \<and> sint (ConvertWebKitToUnixTime 13348541340000000) \<le> 32535215999"
    by (simp add: run_eval)
  from entries_in_query_order [OF h, of] obtain w' where
    w': "PrintUrlsFromDatabase chrome_path 1704067800 600 scenario_machine = Inr w'"
    "stdout w' = stdout scenario_machine
       @ map (entry_line (MultiByteToWideChar scenario_machine))
           (hits 1704067800 600 (run_query ?urls ?visits))"
    and sh: "\<forall>row \<in> set (hits 1704067800 600 (run_query ?urls ?visits)).
          (0 \<le> sint (ConvertWebKitToUnixTime (snd row))
             \<and> sint (ConvertWebKitToUnixTime (snd row)) \<le> 32535215999
           \<longrightarrow> entry_shaped (entry_line (MultiByteToWideChar scenario_machine) row))
          \<and> (sint (ConvertWebKitToUnixTime (snd row)) < 0
             \<or> 32535215999 < sint (ConvertWebKitToUnixTime (snd row))
           \<longrightarrow> (\<exists>url. entry_line (MultiByteToWideChar scenario_machine) row
                 = L ''URL: '' @ url @ L '', Visit Time (UTC): Invalid time\<newline>''))"
    by blast
  have p: "printed (PrintUrlsFromDatabase chrome_path 1704067800 600 scenario_machine)
       = Some [L ''URL: https://example.com, Visit Time (UTC): 2024-01-01 00:09:00\<newline>'',
               L ''URL: https://example.com, Visit Time (UTC): 2024-01-01 00:00:00\<newline>'']"
    by (simp add: printed_def w' v l s0)
  have "entry_shaped (entry_line (MultiByteToWideChar scenario_machine)
        (Some ''https://example.com'', 13348541340000000))"
    using sh r unfolding v by simp
  then have e: "entry_shaped (L ''URL: https://example.com, Visit Time (UTC): 2024-01-01 00:09:00\<newline>'')"
    by (simp only: l)
  show ?thesis using h p e by blast
qed

section \<open>The source store and the run over both stores\<close>

text \<open>
  C9. When the temporary name handed out is not the path of the source itself (it names a
  new file), the source store is the same file after \<open>CopyDatabaseToTemp\<close> and after
  every \<open>PrintUrlsFromDatabase\<close> that returns, failed or not: same content, same lock
  state, and absent if it was absent.
\<close>

theorem source_store_untouched:
  assumes "tempDbPath_of w \<noteq> Some dbPath"
  shows "files (snd (snd (CopyDatabaseToTemp dbPath w))) dbPath = files w dbPath
     \<and> (\<forall>w'. PrintUrlsFromDatabase dbPath ct tr w = Inr w' \<longrightarrow> files w' dbPath = files w dbPath)"
  using CopyDatabaseToTemp_frame [OF assms] PrintUrlsFromDatabase_frame [OF _ assms]
  by blast

theorem source_store_untouched_witness:
  "tempDbPath_of scenario_machine \<noteq> Some chrome_path
   \<and> files scenario_machine chrome_path = Some scenario_store
   \<and> files (snd (snd (CopyDatabaseToTemp chrome_path scenario_machine))) chrome_path
       = Some scenario_store
   \<and> file_after chrome_path (PrintUrlsFromDatabase chrome_path 1704067800 600 scenario_machine)
       = Some (Some scenario_store)"
proof -
  have h: "tempDbPath_of scenario_machine \<noteq> Some chrome_path"
    by (simp add: run_eval)
  have f: "files scenario_machine chrome_path = Some scenario_store"
    by (simp add: run_eval)
  have r: "printed (PrintUrlsFromDatabase chrome_path 1704067800 600 scenario_machine) \<noteq> None"
    by (simp add: run_eval)
  then obtain w' where w': "PrintUrlsFromDatabase chrome_path 1704067800 600 scenario_machine = Inr w'"
    by (auto simp: printed_def split: sum.splits)
  from source_store_untouched [OF h, of 1704067800 600] w' f
  have "files (snd (snd (CopyDatabaseToTemp chrome_path scenario_machine))) chrome_path
       = Some scenario_store" "files w' chrome_path = Some scenario_store"
    by simp_all
  then show ?thesis using h f w' by (simp add: file_after_def)
qed

text \<open>
  C6. When the profile path is known and the extraction of the first store fails at the
  copy, at the open or at the prepare, that extraction returns after printing diagnostics
  only, none of them an entry, and \<open>wmain\<close> goes on to extract the second store in the
  world the first one left. If the second store then yields rows, none with a NULL url
  inside the time range, all its entries inside the time range are printed and the exit
  status is 0.
\<close>

theorem second_store_still_attempted:
  assumes "GetUserProfilePath w \<noteq> []"
    and "store_rows (chromeHistoryPath (GetUserProfilePath w))
           (wprintf (L ''Checking Chrome browsing history:\<newline>'') w) = None"
  shows "\<exists>w1 diag.
       PrintUrlsFromDatabase (chromeHistoryPath (GetUserProfilePath w)) (time_now w) 600
         (wprintf (L ''Checking Chrome browsing history:\<newline>'') w) = Inr w1
     \<and> stdout w1 = stdout w @ [L ''Checking Chrome browsing history:\<newline>''] @ diag
     \<and> diag \<noteq> [] \<and> list_all (\<lambda>l. \<not> is_entry l) diag
     \<and> wmain w =
         (case PrintUrlsFromDatabase (edgeHistoryPath (GetUserProfilePath w)) (time_now w) 600
                 (wprintf (L ''\<newline>Checking Edge browsing history:\<newline>'') w1) of
            Inl f \<Rightarrow> Inl f
          | Inr w2 \<Rightarrow> Inr (0, w2))
     \<and> (\<forall>rows. store_rows (edgeHistoryPath (GetUserProfilePath w))
                  (wprintf (L ''\<newline>Checking Edge browsing history:\<newline>'') w1) = Some rows
               \<and> \<not> null_hit (time_now w) 600 rows
           \<longrightarrow> (\<exists>w2. wmain w = Inr (0, w2)
                 \<and> stdout w2 = stdout w1 @ [L ''\<newline>Checking Edge browsing history:\<newline>'']
                      @ map (entry_line (MultiByteToWideChar w)) (hits (time_now w) 600 rows)))"
proof -
  let ?wA = "wprintf (L ''Checking Chrome browsing history:\<newline>'') w"
  let ?chrome = "chromeHistoryPath (GetUserProfilePath w)"
  let ?edge = "edgeHistoryPath (GetUserProfilePath w)"
  from PrintUrlsFromDatabase_fails [OF assms(2), of "time_now w" 600]
  obtain diag fs where
    d: "PrintUrlsFromDatabase ?chrome (time_now w) 600 ?wA
          = Inr (?wA\<lparr>stdout := stdout ?wA @ diag, files := fs\<rparr>)"
      "diag \<noteq> []" "list_all (\<lambda>l. \<not> is_entry l) diag"
    by blast
  define w1 where "w1 = ?wA\<lparr>stdout := stdout ?wA @ diag, files := fs\<rparr>"
  let ?wB = "wprintf (L ''\<newline>Checking Edge browsing history:\<newline>'') w1"
  have m: "wmain w = (case PrintUrlsFromDatabase ?edge (time_now w) 600 ?wB of
            Inl f \<Rightarrow> Inl f | Inr w2 \<Rightarrow> Inr (0, w2))"
    using assms(1) d(1) by (simp add: wmain_def Let_def w1_def)
  have s1: "stdout w1 = stdout w @ [L ''Checking Chrome browsing history:\<newline>''] @ diag"
    by (simp add: w1_def)
  have mb: "MultiByteToWideChar w1 = MultiByteToWideChar w"
    by (simp add: w1_def)
  have second: "\<exists>w2. wmain w = Inr (0, w2)
        \<and> stdout w2 = stdout w1 @ [L ''\<newline>Checking Edge browsing history:\<newline>'']
             @ map (entry_line (MultiByteToWideChar w)) (hits (time_now w) 600 rows)"
    if "store_rows ?edge ?wB = Some rows \<and> \<not> null_hit (time_now w) 600 rows" for rows
  proof -
    from that PrintUrlsFromDatabase_rows [of ?edge ?wB rows "time_now w" 600]
    obtain t where "PrintUrlsFromDatabase ?edge (time_now w) 600 ?wB =
        Inr (?wB\<lparr>stdout := stdout ?wB @ map (entry_line (MultiByteToWideChar ?wB))
                     (hits (time_now w) 600 rows),
                 files := (files ?wB)(t := None)\<rparr>)"
      by auto
    then show ?thesis by (simp add: m mb)
  qed
  show ?thesis
    using d(1) d(2) d(3) s1 m second unfolding w1_def [symmetric] by blast
qed

theorem second_store_still_attempted_witness:
  "GetUserProfilePath edge_only_machine \<noteq> []
   \<and> store_rows (chromeHistoryPath (GetUserProfilePath edge_only_machine))
        (wprintf (L ''Checking Chrome browsing history:\<newline>'') edge_only_machine) = None
   \<and> exit_status (wmain edge_only_machine) = Some 0
   \<and> printed_at_exit (wmain edge_only_machine)
       = Some [L ''Checking Chrome browsing history:\<newline>'',
               L ''Failed to copy database: cannot copy file\<newline>'',
               L ''Failed to copy database to temporary file: '' @ chrome_path @ L ''\<newline>'',
               L ''\<newline>Checking Edge browsing history:\<newline>'',
               L ''URL: https://example.com, Visit Time (UTC): 2024-01-01 00:09:00\<newline>'',
               L ''URL: https://example.com, Visit Time (UTC): 2024-01-01 00:00:00\<newline>'']"
proof -
  have h: "GetUserProfilePath edge_only_machine \<noteq> []"
    "store_rows (chromeHistoryPath (GetUserProfilePath edge_only_machine))
        (wprintf (L ''Checking Chrome browsing history:\<newline>'') edge_only_machine) = None"
    by (simp_all add: run_eval)
  have p: "printed_at_exit (wmain edge_only_machine)
       = Some [L ''Checking Chrome browsing history:\<newline>'',
               L ''Failed to copy database: cannot copy file\<newline>'',
               L ''Failed to copy database to temporary file: '' @ chrome_path @ L ''\<newline>'',
               L ''\<newline>Checking Edge browsing history:\<newline>'',
               L ''URL: https://example.com, Visit Time (UTC): 2024-01-01 00:09:00\<newline>'',
               L ''URL: https://example.com, Visit Time (UTC): 2024-01-01 00:00:00\<newline>'']"
    by (simp add: run_eval)
  from second_store_still_attempted [OF h] obtain w1 where
    "wmain edge_only_machine =
       (case PrintUrlsFromDatabase (edgeHistoryPath (GetUserProfilePath edge_only_machine))
               (time_now edge_only_machine) 600
               (wprintf (L ''\<newline>Checking Edge browsing history:\<newline>'') w1) of
          Inl f \<Rightarrow> Inl f
        | Inr w2 \<Rightarrow> Inr (0, w2))"
    by blast
  then have "exit_status (wmain edge_only_machine) = Some 0
      \<or> printed_at_exit (wmain edge_only_machine) = None"
    by (auto simp: exit_status_def printed_at_exit_def split: sum.splits)
  with p have "exit_status (wmain edge_only_machine) = Some 0" by simp
  with h p show ?thesis by blast
qed





end
